theory Spec2Isabelle
  imports Main "HOL-Library.Sublist" "HOL-Library.Char_ord" "HOL-Library.List_Lexorder" "HOL-Library.AList"
begin

section \<open>Python strings\<close>

text \<open>
  A Python \<open>str\<close> is modelled as a \<open>string\<close>: every \<open>char\<close> stands for one code point
  (code points above 255 are outside the type).  The functions of this section are the
  \<open>str\<close> methods that \<open>FileServer.py\<close> calls.
\<close>

text \<open>\<open>s.startswith(p)\<close>\<close>

definition startswith :: "'a list \<Rightarrow> 'a list \<Rightarrow> bool" where
  "startswith s p = (take (length p) s = p)"

text \<open>\<open>s.find(sub)\<close>: the lowest index at which \<open>sub\<close> starts, \<open>None\<close> for Python's \<open>-1\<close>.\<close>

fun find_sub :: "'a list \<Rightarrow> 'a list \<Rightarrow> nat option" where
  "find_sub [] sub = (if sub = [] then Some 0 else None)"
| "find_sub (c # cs) sub =
     (if startswith (c # cs) sub then Some 0 else map_option Suc (find_sub cs sub))"

text \<open>\<open>sub in s\<close>\<close>

definition contains :: "'a list \<Rightarrow> 'a list \<Rightarrow> bool" where
  "contains s sub = (find_sub s sub \<noteq> None)"

text \<open>
  \<open>s.count(sub)\<close>: the number of non-overlapping occurrences, found from left to right;
  the empty string is counted once between any two characters and at both ends.
\<close>

function count_sub :: "'a list \<Rightarrow> 'a list \<Rightarrow> nat" where
  "count_sub s sub =
     (if sub = [] then length s + 1
      else case find_sub s sub of
             None \<Rightarrow> 0
           | Some i \<Rightarrow> 1 + count_sub (drop (i + length sub) s) sub)"
  by pat_completeness auto

text \<open>\<open>s.replace(old, new, 1)\<close>: only the leftmost occurrence is replaced.\<close>

definition replace_first :: "'a list \<Rightarrow> 'a list \<Rightarrow> 'a list \<Rightarrow> 'a list" where
  "replace_first s old new =
     (case find_sub s old of
        None \<Rightarrow> s
      | Some i \<Rightarrow> take i s @ new @ drop (i + length old) s)"

lemma find_sub_bound: "find_sub s sub = Some i \<Longrightarrow> i + length sub \<le> length s"
proof (induction s arbitrary: i)
  case Nil
  then show ?case by (simp split: if_splits)
next
  case (Cons c cs)
  show ?case
  proof (cases "startswith (c # cs) sub")
    case True
    with Cons.prems have "i = 0" by simp
    moreover from True have "length (take (length sub) (c # cs)) = length sub"
      unfolding startswith_def by simp
    then have "length sub \<le> length (c # cs)" by simp
    ultimately show ?thesis by simp
  next
    case False
    with Cons.prems obtain j where "find_sub cs sub = Some j" "i = Suc j" by auto
    with Cons.IH show ?thesis by fastforce
  qed
qed

termination count_sub
proof (relation "measure (\<lambda>(s, sub). length s)", goal_cases)
  case 1
  show ?case by simp
next
  case (2 s sub i)
  then have "i + length sub \<le> length s" and "0 < length sub"
    by (auto dest: find_sub_bound)
  then have "length s - (i + length sub) < length s"
    by linarith
  then show ?case by simp
qed

text \<open>
  \<open>s.splitlines()\<close>: the lines of \<open>s\<close> without their line breaks.  A line ends at a line
  feed, a carriage return (with the line feed that follows it, if any), a vertical tab,
  a form feed, a file, group or record separator, or a next-line character; a final
  line break opens no further line.
\<close>

definition line_boundary :: "char \<Rightarrow> bool" where
  "line_boundary c =
     (c \<in> set [CHR 0x0A, CHR 0x0B, CHR 0x0C, CHR 0x0D, CHR 0x1C, CHR 0x1D, CHR 0x1E, CHR 0x85])"

fun splitlines_from :: "string \<Rightarrow> string \<Rightarrow> string list" where
  "splitlines_from line [] = (if line = [] then [] else [line])"
| "splitlines_from line [c] =
     (if line_boundary c then [line] else [line @ [c]])"
| "splitlines_from line (c # d # cs) =
     (if c = CHR 0x0D \<and> d = CHR 0x0A then line # splitlines_from [] cs
      else if line_boundary c then line # splitlines_from [] (d # cs)
      else splitlines_from (line @ [c]) (d # cs))"

definition splitlines :: "string \<Rightarrow> string list" where
  "splitlines s = splitlines_from [] s"

text \<open>\<open>sep.join(xs)\<close>\<close>

fun str_join :: "'a list \<Rightarrow> 'a list list \<Rightarrow> 'a list" where
  "str_join sep [] = []"
| "str_join sep [x] = x"
| "str_join sep (x # y # ys) = x @ sep @ str_join sep (y # ys)"

text \<open>\<open>str(n)\<close> for a natural number: its decimal digits.\<close>

fun str_nat :: "nat \<Rightarrow> string" where
  "str_nat n =
     (if n < 10 then [char_of (48 + n)]
      else str_nat (n div 10) @ [char_of (48 + n mod 10)])"

declare str_nat.simps [simp del]

section \<open>Errors\<close>

text \<open>
  The exceptions that leave the functions of \<open>FileServer.py\<close>.  The first four are the
  \<open>ValueError\<close>s the file raises itself, told apart by their message (\<open>message\<close> below);
  the others are raised by the Python runtime, the standard library and the operating
  system.  \<open>ValueError m\<close> is a \<open>ValueError\<close> of the library, with its message.
\<close>

datatype error =
    AccessDenied string
  | TextNotFound string
  | AmbiguousMatch string
  | HeadAndTail
  | KeyError string
  | UnicodeDecodeError
  | RecursionError
  | OSError string
  | ValueError string

fun message :: "error \<Rightarrow> string" where
  "message (AccessDenied file_path) =
     ''Access denied: '' @ file_path @ '' is outside allowed directories''"
| "message (TextNotFound preview) = ''Text to replace not found: '' @ preview @ ''...''"
| "message (AmbiguousMatch preview) =
     ''Text appears multiple times in file: '' @ preview @ ''...''"
| "message HeadAndTail = ''Cannot specify both head and tail parameters''"
| "message (KeyError k) = k"
| "message UnicodeDecodeError = ''invalid start byte''"
| "message RecursionError = ''maximum recursion depth exceeded''"
| "message (OSError m) = m"
| "message (ValueError m) = m"

section \<open>The platform\<close>

text \<open>
  \<open>FileServer.py\<close> runs on the Python standard library and the operating system; neither
  is part of the repository.  What the file calls is gathered in a record, and every
  function of the file takes that record as its first argument.  The type \<open>'w\<close> is the
  state of the world outside the process (the file system); a call that can change it
  returns the new state, and a call that only reads it does not.  A call that can
  raise returns the exception or its result.
\<close>

datatype encoding = UTF8 | Latin1

text \<open>
  An opcode of \<open>difflib.SequenceMatcher\<close>: \<open>(tag, i1, i2, j1, j2)\<close>.  A group of opcodes
  is never empty; it is given as its first opcode and the others.
\<close>

datatype tag = Replace | Delete | Insert | Equal

type_synonym opcode = "tag \<times> nat \<times> nat \<times> nat \<times> nat"

type_synonym opcode_group = "opcode \<times> opcode list"

record 'w platform =
  expanduser :: "'w \<Rightarrow> string \<Rightarrow> error + string"
  abspath :: "'w \<Rightarrow> string \<Rightarrow> error + string"
  realpath :: "'w \<Rightarrow> string \<Rightarrow> string option"
  normpath :: "string \<Rightarrow> string"
  dirname :: "string \<Rightarrow> string"
  path_join :: "string \<Rightarrow> string \<Rightarrow> string"
  isdir :: "'w \<Rightarrow> string \<Rightarrow> bool"
  listdir :: "'w \<Rightarrow> string \<Rightarrow> error + string list"
  open_read :: "'w \<Rightarrow> string \<Rightarrow> encoding \<Rightarrow> error + string"
  open_write :: "'w \<Rightarrow> string \<Rightarrow> string \<Rightarrow> error option \<times> 'w"
  makedirs :: "'w \<Rightarrow> string \<Rightarrow> error option \<times> 'w"
  rename :: "'w \<Rightarrow> string \<Rightarrow> string \<Rightarrow> error option \<times> 'w"
  get_grouped_opcodes :: "string list \<Rightarrow> string list \<Rightarrow> opcode_group list"
  media_report :: "'w \<Rightarrow> string \<Rightarrow> error + string"
  sizes_report :: "'w \<Rightarrow> string \<Rightarrow> string \<Rightarrow> error + string"
  tree_report :: "'w \<Rightarrow> string \<Rightarrow> string list \<Rightarrow> error + string"
  stats_report :: "'w \<Rightarrow> string \<Rightarrow> error + string"

text \<open>
  \<^item> \<open>expanduser w p\<close> and \<open>abspath w p\<close> read the world: the first looks a user up in
    the password database and raises on a name it cannot pass to it, the second asks
    for the working directory when \<open>p\<close> is relative and raises when there is none.
  \<^item> \<open>realpath w p\<close> is \<open>None\<close> when \<open>os.path.realpath\<close> raises.
  \<^item> \<open>open_read w p enc\<close> is \<open>open(p, 'r', encoding=enc).read()\<close>; \<open>open_write w p s\<close> is
    \<open>open(p, 'w', encoding='utf-8').write(s)\<close>; \<open>makedirs w p\<close> is
    \<open>os.makedirs(p, exist_ok=True)\<close>.  A call that raises may still have changed the
    world (a truncated file, some of the directories made).
  \<^item> \<open>get_grouped_opcodes a b\<close> is \<open>SequenceMatcher(None, a, b).get_grouped_opcodes(3)\<close>.
  \<^item> The four reports are the bodies of \<open>read_media_file\<close>, \<open>list_directory_with_sizes\<close>,
    \<open>directory_tree\<close> and \<open>get_file_info\<close> after the path is validated: they read the
    file system (\<open>open\<close>, \<open>os.listdir\<close>, \<open>os.stat\<close>, \<open>os.path.isdir\<close>) and format what
    they read with \<open>base64\<close>, \<open>mimetypes\<close>, \<open>json\<close> and floating-point formatting.
\<close>

section \<open>The server\<close>

text \<open>
  The state of the process is the global \<open>allowed_directories\<close>; the state a tool call
  runs in is that global and the world outside.
\<close>

record 'w server =
  allowed_directories :: "string list"
  world :: "'w"

subsection \<open>Helper functions\<close>

definition expand_home :: "'w platform \<Rightarrow> 'w \<Rightarrow> string \<Rightarrow> error + string" where
  "expand_home pf w path = expanduser pf w path"

definition normalize_path :: "'w platform \<Rightarrow> string \<Rightarrow> string" where
  "normalize_path pf path = normpath pf path"

definition set_allowed_directories :: "'w server \<Rightarrow> string list \<Rightarrow> 'w server" where
  "set_allowed_directories s directories = s\<lparr>allowed_directories := directories\<rparr>"

text \<open>
  \<open>validate_path\<close>, lines 48 to 56: the path that is compared with the allowed
  directories.  \<open>expand_home\<close> and \<open>os.path.abspath\<close> are called outside the \<open>try\<close>: an
  exception they raise leaves \<open>validate_path\<close>.  The \<open>except\<close> branch is taken when
  \<open>os.path.realpath\<close> raises.
\<close>

definition normalized_path :: "'w platform \<Rightarrow> 'w \<Rightarrow> string \<Rightarrow> error + string" where
  "normalized_path pf w file_path =
     (case expand_home pf w file_path of
        Inl e \<Rightarrow> Inl e
      | Inr expanded \<Rightarrow>
          (case abspath pf w expanded of
             Inl e \<Rightarrow> Inl e
           | Inr absolute \<Rightarrow>
               Inr (case realpath pf w absolute of
                      Some resolved \<Rightarrow> normalize_path pf resolved
                    | None \<Rightarrow> normalize_path pf absolute)))"

text \<open>\<open>validate_path\<close>, lines 59 to 63: the loop over the allowed directories.\<close>

fun check_allowed :: "string list \<Rightarrow> string \<Rightarrow> string \<Rightarrow> error + string" where
  "check_allowed [] normalized file_path = Inl (AccessDenied file_path)"
| "check_allowed (allowed_dir # rest) normalized file_path =
     (if startswith normalized allowed_dir then Inr normalized
      else check_allowed rest normalized file_path)"

definition validate_path :: "'w platform \<Rightarrow> 'w server \<Rightarrow> string \<Rightarrow> error + string" where
  "validate_path pf s file_path =
     (case normalized_path pf (world s) file_path of
        Inl e \<Rightarrow> Inl e
      | Inr normalized \<Rightarrow> check_allowed (allowed_directories s) normalized file_path)"

definition read_file_content :: "'w platform \<Rightarrow> 'w \<Rightarrow> string \<Rightarrow> error + string" where
  "read_file_content pf w file_path =
     (case open_read pf w file_path UTF8 of
        Inl UnicodeDecodeError \<Rightarrow> open_read pf w file_path Latin1
      | r \<Rightarrow> r)"

definition write_file_content ::
  "'w platform \<Rightarrow> 'w \<Rightarrow> string \<Rightarrow> string \<Rightarrow> error option \<times> 'w" where
  "write_file_content pf w file_path content =
     (case makedirs pf w (dirname pf file_path) of
        (Some e, w') \<Rightarrow> (Some e, w')
      | (None, w') \<Rightarrow> open_write pf w' file_path content)"

subsection \<open>Editing a file\<close>

text \<open>An edit is a \<open>Dict[str, str]\<close>; reading a key it does not have raises \<open>KeyError\<close>.\<close>

type_synonym edit = "string \<rightharpoonup> string"

definition mk_edit :: "string \<Rightarrow> string \<Rightarrow> edit" where
  "mk_edit old_text new_text = [''oldText'' \<mapsto> old_text, ''newText'' \<mapsto> new_text]"

text \<open>\<open>apply_file_edits\<close>, lines 156 to 167: the loop over the edits.\<close>

fun apply_edits :: "string \<Rightarrow> edit list \<Rightarrow> error + string" where
  "apply_edits new_content [] = Inr new_content"
| "apply_edits new_content (edit # edits) =
     (case edit ''oldText'' of
        None \<Rightarrow> Inl (KeyError ''oldText'')
      | Some old_text \<Rightarrow>
          (case edit ''newText'' of
             None \<Rightarrow> Inl (KeyError ''newText'')
           | Some new_text \<Rightarrow>
               if \<not> contains new_content old_text
               then Inl (TextNotFound (take 50 old_text))
               else if count_sub new_content old_text > 1
               then Inl (AmbiguousMatch (take 50 old_text))
               else apply_edits (replace_first new_content old_text new_text) edits))"

text \<open>
  \<open>difflib.unified_diff(a, b, lineterm='')\<close>.  The file names and dates are left at
  their defaults, the empty string, so the two header lines that precede the first
  hunk are \<open>'--- '\<close> and \<open>'+++ '\<close>; no line is produced when there is no hunk.
\<close>

definition format_range_unified :: "nat \<Rightarrow> nat \<Rightarrow> string" where
  "format_range_unified start stop =
     (let beginning = start + 1;
          len = stop - start
      in if len = 1 then str_nat beginning
         else str_nat (if len = 0 then beginning - 1 else beginning) @ '','' @ str_nat len)"

definition slice :: "'a list \<Rightarrow> nat \<Rightarrow> nat \<Rightarrow> 'a list" where
  "slice xs i j = take (j - i) (drop i xs)"

fun opcode_lines :: "string list \<Rightarrow> string list \<Rightarrow> opcode \<Rightarrow> string list" where
  "opcode_lines a b (t, i1, i2, j1, j2) =
     (if t = Equal then map ((#) CHR '' '') (slice a i1 i2)
      else (if t = Replace \<or> t = Delete then map ((#) CHR ''-'') (slice a i1 i2) else [])
         @ (if t = Replace \<or> t = Insert then map ((#) CHR ''+'') (slice b j1 j2) else []))"

fun hunk :: "string list \<Rightarrow> string list \<Rightarrow> opcode_group \<Rightarrow> string list" where
  "hunk a b (first, others) =
     (case (first, last (first # others)) of
        ((_, i1, _, j1, _), (_, _, i2, _, j2)) \<Rightarrow>
          (''@@ -'' @ format_range_unified i1 i2 @ '' +'' @ format_range_unified j1 j2 @ '' @@'')
          # concat (map (opcode_lines a b) (first # others)))"

definition unified_diff :: "'w platform \<Rightarrow> string list \<Rightarrow> string list \<Rightarrow> string list" where
  "unified_diff pf a b =
     (case get_grouped_opcodes pf a b of
        [] \<Rightarrow> []
      | groups \<Rightarrow> [''--- '', ''+++ ''] @ concat (map (hunk a b) groups))"

text \<open>\<open>apply_file_edits\<close>, lines 172 to 183: the text that is returned.\<close>

definition diff_text :: "'w platform \<Rightarrow> string \<Rightarrow> string \<Rightarrow> string \<Rightarrow> string" where
  "diff_text pf file_path content new_content =
     (let diff_lines = [''--- '' @ file_path, ''+++ '' @ file_path];
          old_lines = splitlines content;
          new_lines = splitlines new_content;
          diff = unified_diff pf old_lines new_lines
      in str_join [CHR 0x0A] (diff_lines @ diff))"

definition apply_file_edits ::
  "'w platform \<Rightarrow> 'w \<Rightarrow> string \<Rightarrow> edit list \<Rightarrow> bool \<Rightarrow> (error + string) \<times> 'w" where
  "apply_file_edits pf w file_path edits dry_run =
     (case read_file_content pf w file_path of
        Inl e \<Rightarrow> (Inl e, w)
      | Inr content \<Rightarrow>
          (case apply_edits content edits of
             Inl e \<Rightarrow> (Inl e, w)
           | Inr new_content \<Rightarrow>
               (case (if \<not> dry_run then write_file_content pf w file_path new_content
                      else (None, w)) of
                  (Some e, w') \<Rightarrow> (Inl e, w')
                | (None, w') \<Rightarrow> (Inr (diff_text pf file_path content new_content), w'))))"

subsection \<open>Reading the head and the tail of a file\<close>

text \<open>
  \<open>f.readlines()\<close> on a file opened as text: the lines with their line feed (a file
  opened as text gives every line break as a line feed).
\<close>

fun readlines_from :: "string \<Rightarrow> string \<Rightarrow> string list" where
  "readlines_from line [] = (if line = [] then [] else [line])"
| "readlines_from line (c # cs) =
     (if c = CHR 0x0A then (line @ [c]) # readlines_from [] cs
      else readlines_from (line @ [c]) cs)"

definition readlines :: "string \<Rightarrow> string list" where
  "readlines s = readlines_from [] s"

text \<open>\<open>lines[-n:]\<close> for an integer \<open>n\<close>.\<close>

definition last_lines :: "'a list \<Rightarrow> int \<Rightarrow> 'a list" where
  "last_lines lines n =
     (if 0 < n then drop (length lines - nat n) lines else drop (nat (- n)) lines)"

definition tail_file :: "'w platform \<Rightarrow> 'w \<Rightarrow> string \<Rightarrow> int \<Rightarrow> error + string" where
  "tail_file pf w file_path num_lines =
     (case open_read pf w file_path UTF8 of
        Inl e \<Rightarrow> Inl e
      | Inr text \<Rightarrow> Inr (concat (last_lines (readlines text) num_lines)))"

definition head_file :: "'w platform \<Rightarrow> 'w \<Rightarrow> string \<Rightarrow> int \<Rightarrow> error + string" where
  "head_file pf w file_path num_lines =
     (case open_read pf w file_path UTF8 of
        Inl e \<Rightarrow> Inl e
      | Inr text \<Rightarrow> Inr (concat (take (nat num_lines) (readlines text))))"

subsection \<open>The tools\<close>

text \<open>
  A tool runs in a state of the server and returns its result, or the exception that
  leaves it, together with the state after the call.
\<close>

type_synonym 'w outcome = "(error + string) \<times> 'w server"

text \<open>The truth value of an \<open>Optional[int]\<close>: \<open>None\<close> and \<open>0\<close> are false.\<close>

definition truthy :: "int option \<Rightarrow> bool" where
  "truthy x = (x \<noteq> None \<and> x \<noteq> Some 0)"

definition read_text_file ::
  "'w platform \<Rightarrow> 'w server \<Rightarrow> string \<Rightarrow> int option \<Rightarrow> int option \<Rightarrow> 'w outcome" where
  "read_text_file pf s path tail head =
     (if truthy head \<and> truthy tail then (Inl HeadAndTail, s)
      else case validate_path pf s path of
             Inl e \<Rightarrow> (Inl e, s)
           | Inr valid_path \<Rightarrow>
               (if truthy tail then (tail_file pf (world s) valid_path (the tail), s)
                else if truthy head then (head_file pf (world s) valid_path (the head), s)
                else (read_file_content pf (world s) valid_path, s)))"

definition read_media_file :: "'w platform \<Rightarrow> 'w server \<Rightarrow> string \<Rightarrow> 'w outcome" where
  "read_media_file pf s path =
     (case validate_path pf s path of
        Inl e \<Rightarrow> (Inl e, s)
      | Inr valid_path \<Rightarrow> (media_report pf (world s) valid_path, s))"

definition write_file :: "'w platform \<Rightarrow> 'w server \<Rightarrow> string \<Rightarrow> string \<Rightarrow> 'w outcome" where
  "write_file pf s path content =
     (case validate_path pf s path of
        Inl e \<Rightarrow> (Inl e, s)
      | Inr valid_path \<Rightarrow>
          (case write_file_content pf (world s) valid_path content of
             (Some e, w') \<Rightarrow> (Inl e, s\<lparr>world := w'\<rparr>)
           | (None, w') \<Rightarrow> (Inr (''Successfully wrote to '' @ path), s\<lparr>world := w'\<rparr>)))"

definition edit_file ::
  "'w platform \<Rightarrow> 'w server \<Rightarrow> string \<Rightarrow> edit list \<Rightarrow> bool \<Rightarrow> 'w outcome" where
  "edit_file pf s path edits dry_run =
     (case validate_path pf s path of
        Inl e \<Rightarrow> (Inl e, s)
      | Inr valid_path \<Rightarrow>
          (case apply_file_edits pf (world s) valid_path edits dry_run of
             (r, w') \<Rightarrow> (r, s\<lparr>world := w'\<rparr>)))"

definition create_directory :: "'w platform \<Rightarrow> 'w server \<Rightarrow> string \<Rightarrow> 'w outcome" where
  "create_directory pf s path =
     (case validate_path pf s path of
        Inl e \<Rightarrow> (Inl e, s)
      | Inr valid_path \<Rightarrow>
          (case makedirs pf (world s) valid_path of
             (Some e, w') \<Rightarrow> (Inl e, s\<lparr>world := w'\<rparr>)
           | (None, w') \<Rightarrow>
               (Inr (''Successfully created directory '' @ path), s\<lparr>world := w'\<rparr>)))"

definition list_directory :: "'w platform \<Rightarrow> 'w server \<Rightarrow> string \<Rightarrow> 'w outcome" where
  "list_directory pf s path =
     (case validate_path pf s path of
        Inl e \<Rightarrow> (Inl e, s)
      | Inr valid_path \<Rightarrow>
          (case listdir pf (world s) valid_path of
             Inl e \<Rightarrow> (Inl e, s)
           | Inr entries \<Rightarrow>
               (Inr (str_join [CHR 0x0A]
                  (map (\<lambda>entry.
                      (if isdir pf (world s) (path_join pf valid_path entry)
                       then ''[DIR]'' else ''[FILE]'') @ '' '' @ entry)
                    (sort entries))), s)))"

definition list_directory_with_sizes ::
  "'w platform \<Rightarrow> 'w server \<Rightarrow> string \<Rightarrow> string \<Rightarrow> 'w outcome" where
  "list_directory_with_sizes pf s path sort_by =
     (case validate_path pf s path of
        Inl e \<Rightarrow> (Inl e, s)
      | Inr valid_path \<Rightarrow> (sizes_report pf (world s) valid_path sort_by, s))"

definition directory_tree ::
  "'w platform \<Rightarrow> 'w server \<Rightarrow> string \<Rightarrow> string list option \<Rightarrow> 'w outcome" where
  "directory_tree pf s path exclude_patterns =
     (case validate_path pf s path of
        Inl e \<Rightarrow> (Inl e, s)
      | Inr valid_path \<Rightarrow>
          (tree_report pf (world s) valid_path
             (case exclude_patterns of None \<Rightarrow> [] | Some pats \<Rightarrow> pats), s))"

definition move_file :: "'w platform \<Rightarrow> 'w server \<Rightarrow> string \<Rightarrow> string \<Rightarrow> 'w outcome" where
  "move_file pf s source destination =
     (case validate_path pf s source of
        Inl e \<Rightarrow> (Inl e, s)
      | Inr valid_source \<Rightarrow>
          (case validate_path pf s destination of
             Inl e \<Rightarrow> (Inl e, s)
           | Inr valid_dest \<Rightarrow>
               (case rename pf (world s) valid_source valid_dest of
                  (Some e, w') \<Rightarrow> (Inl e, s\<lparr>world := w'\<rparr>)
                | (None, w') \<Rightarrow>
                    (Inr (''Successfully moved '' @ source @ '' to '' @ destination),
                     s\<lparr>world := w'\<rparr>))))"

text \<open>
  The tool \<open>search_files\<close> (line 410) has the name of the helper of line 132, and the
  decorator of a tool returns the function it is given: when a tool is called, the
  global name \<open>search_files\<close> is the tool, and the call of line 423 is a call of the
  tool itself.  The first argument of the model is the number of calls that the
  interpreter's recursion limit still allows.
\<close>

fun search_files ::
  "nat \<Rightarrow> 'w platform \<Rightarrow> 'w server \<Rightarrow> string \<Rightarrow> string \<Rightarrow> string list option \<Rightarrow> 'w outcome"
where
  "search_files 0 pf s path pattern exclude_patterns = (Inl RecursionError, s)"
| "search_files (Suc depth) pf s path pattern exclude_patterns =
     (case validate_path pf s path of
        Inl e \<Rightarrow> (Inl e, s)
      | Inr valid_path \<Rightarrow>
          (case search_files depth pf s valid_path pattern
                  (Some (case exclude_patterns of None \<Rightarrow> [] | Some pats \<Rightarrow> pats)) of
             (Inl e, s') \<Rightarrow> (Inl e, s')
           | (Inr results, s') \<Rightarrow>
               (Inr (if results \<noteq> [] then str_join [CHR 0x0A] (map (\<lambda>c. [c]) results)
                     else ''No matches found''), s')))"

definition get_file_info :: "'w platform \<Rightarrow> 'w server \<Rightarrow> string \<Rightarrow> 'w outcome" where
  "get_file_info pf s path =
     (case validate_path pf s path of
        Inl e \<Rightarrow> (Inl e, s)
      | Inr valid_path \<Rightarrow> (stats_report pf (world s) valid_path, s))"

definition list_allowed_directories :: "'w server \<Rightarrow> 'w outcome" where
  "list_allowed_directories s =
     (if allowed_directories s = [] then (Inr ''No allowed directories configured'', s)
      else (Inr (''Allowed directories:'' @ [CHR 0x0A]
                   @ str_join [CHR 0x0A] (allowed_directories s)), s))"

text \<open>
  The public surface: a request names a tool and gives its arguments; \<open>call_tool\<close> runs
  it, and \<open>serve\<close> runs the requests of a session one after the other, as \<open>mcp.run\<close> does.
\<close>

datatype request =
    ReadTextFile string "int option" "int option"
  | ReadMediaFile string
  | WriteFile string string
  | EditFile string "edit list" bool
  | CreateDirectory string
  | ListDirectory string
  | ListDirectoryWithSizes string string
  | DirectoryTree string "string list option"
  | MoveFile string string
  | SearchFiles string string "string list option"
  | GetFileInfo string
  | ListAllowedDirectories

fun call_tool :: "nat \<Rightarrow> 'w platform \<Rightarrow> 'w server \<Rightarrow> request \<Rightarrow> 'w outcome" where
  "call_tool limit pf s (ReadTextFile path tail head) = read_text_file pf s path tail head"
| "call_tool limit pf s (ReadMediaFile path) = read_media_file pf s path"
| "call_tool limit pf s (WriteFile path content) = write_file pf s path content"
| "call_tool limit pf s (EditFile path edits dry_run) = edit_file pf s path edits dry_run"
| "call_tool limit pf s (CreateDirectory path) = create_directory pf s path"
| "call_tool limit pf s (ListDirectory path) = list_directory pf s path"
| "call_tool limit pf s (ListDirectoryWithSizes path sort_by) =
     list_directory_with_sizes pf s path sort_by"
| "call_tool limit pf s (DirectoryTree path exclude_patterns) =
     directory_tree pf s path exclude_patterns"
| "call_tool limit pf s (MoveFile source destination) = move_file pf s source destination"
| "call_tool limit pf s (SearchFiles path pattern exclude_patterns) =
     search_files limit pf s path pattern exclude_patterns"
| "call_tool limit pf s (GetFileInfo path) = get_file_info pf s path"
| "call_tool limit pf s ListAllowedDirectories = list_allowed_directories s"

fun serve :: "nat \<Rightarrow> 'w platform \<Rightarrow> 'w server \<Rightarrow> request list \<Rightarrow> 'w server" where
  "serve limit pf s [] = s"
| "serve limit pf s (r # rs) = serve limit pf (snd (call_tool limit pf s r)) rs"

subsection \<open>Occurrences of a text\<close>

text \<open>
  The positions at which \<open>sub\<close> occurs in \<open>s\<close>, in increasing order: the positions \<open>i\<close> at
  which \<open>s\<close>, from \<open>i\<close> on, starts with \<open>sub\<close>.  This is what it means for an edit's old text
  to be absent from the content (no position), to occur once (one position) or more
  than once; the code decides it with \<open>in\<close> and \<open>count\<close>.
\<close>

definition occurrences :: "'a list \<Rightarrow> 'a list \<Rightarrow> nat list" where
  "occurrences s sub = filter (\<lambda>i. startswith (drop i s) sub) [0..<Suc (length s)]"

section \<open>A POSIX platform\<close>

text \<open>
  A concrete platform on which the functions above can be run: the path functions
  follow CPython's \<open>posixpath\<close>, and the file system is a table from absolute paths to
  nodes (the root directory is always there).  Files hold text, so decoding never
  fails.  The password database \<open>passwd\<close> gives the home directory of every user it
  knows by name, the environment variable \<open>HOME\<close> is set to \<open>home\<close>, and the working
  directory of the process is \<open>cwd\<close>.
\<close>

datatype node = Dir | File string | Link string

type_synonym fs = "(string \<times> node) list"

definition node_at :: "fs \<Rightarrow> string \<Rightarrow> node option" where
  "node_at fs p = (if p = ''/'' then Some Dir else map_of fs p)"

definition isabs :: "string \<Rightarrow> bool" where
  "isabs p = startswith p ''/''"

definition rstrip_sep :: "string \<Rightarrow> string" where
  "rstrip_sep p = rev (dropWhile (\<lambda>c. c = CHR ''/'') (rev p))"

definition posix_join :: "string \<Rightarrow> string \<Rightarrow> string" where
  "posix_join a b =
     (if startswith b ''/'' then b
      else if a = [] \<or> last a = CHR ''/'' then a @ b
      else a @ ''/'' @ b)"

definition posix_split :: "string \<Rightarrow> string \<times> string" where
  "posix_split p =
     (let tail = rev (takeWhile (\<lambda>c. c \<noteq> CHR ''/'') (rev p));
          head = take (length p - length tail) p
      in (if head \<noteq> [] \<and> head \<noteq> replicate (length head) CHR ''/''
          then rstrip_sep head else head, tail))"

definition posix_dirname :: "string \<Rightarrow> string" where
  "posix_dirname p = fst (posix_split p)"

text \<open>\<open>s.split(sep)\<close>\<close>

fun split_on :: "'a \<Rightarrow> 'a list \<Rightarrow> 'a list list" where
  "split_on sep [] = [[]]"
| "split_on sep (c # cs) =
     (if c = sep then [] # split_on sep cs
      else case split_on sep cs of
             [] \<Rightarrow> [[c]]
           | x # xs \<Rightarrow> (c # x) # xs)"

text \<open>The loop of \<open>normpath\<close> over the components; \<open>rooted\<close> says that the path is absolute.\<close>

fun norm_comps :: "bool \<Rightarrow> string list \<Rightarrow> string list \<Rightarrow> string list" where
  "norm_comps rooted new_comps [] = new_comps"
| "norm_comps rooted new_comps (part # comps) =
     (if part = [] \<or> part = ''.'' then norm_comps rooted new_comps comps
      else if part \<noteq> ''..'' \<or> (\<not> rooted \<and> new_comps = [])
              \<or> (new_comps \<noteq> [] \<and> last new_comps = ''..'')
      then norm_comps rooted (new_comps @ [part]) comps
      else if new_comps \<noteq> [] then norm_comps rooted (butlast new_comps) comps
      else norm_comps rooted new_comps comps)"

definition posix_normpath :: "string \<Rightarrow> string" where
  "posix_normpath p =
     (if p = [] then ''.''
      else let initial_slashes =
                 (if \<not> startswith p ''/'' then 0
                  else if startswith p ''//'' \<and> \<not> startswith p ''///'' then 2
                  else (1::nat));
               comps = norm_comps (initial_slashes \<noteq> 0) [] (split_on CHR ''/'' p);
               path = replicate initial_slashes CHR ''/'' @ str_join ''/'' comps
           in if path = [] then ''.'' else path)"

definition posix_abspath :: "string \<Rightarrow> string \<Rightarrow> string" where
  "posix_abspath cwd p = posix_normpath (if isabs p then p else posix_join cwd p)"

text \<open>
  \<open>expanduser\<close>: a leading \<open>~\<close> on its own, or before a separator, is \<open>HOME\<close>; \<open>~name\<close> is
  the home directory of the user \<open>name\<close>, looked up with \<open>pwd.getpwnam\<close>, which raises
  \<open>ValueError\<close> on a name with a null character and \<open>KeyError\<close> on a name it does not
  know; on \<open>KeyError\<close> the path is left as it is.
\<close>

definition getpwnam :: "(string \<times> string) list \<Rightarrow> string \<Rightarrow> error + string" where
  "getpwnam passwd name =
     (if CHR 0x00 \<in> set name then Inl (ValueError ''embedded null byte'')
      else case map_of passwd name of
             None \<Rightarrow> Inl (KeyError name)
           | Some pw_dir \<Rightarrow> Inr pw_dir)"

definition posix_expanduser ::
  "(string \<times> string) list \<Rightarrow> string \<Rightarrow> string \<Rightarrow> error + string" where
  "posix_expanduser passwd home path =
     (if \<not> startswith path ''~'' then Inr path
      else let i = (case find_sub (tl path) ''/'' of None \<Rightarrow> length path | Some k \<Rightarrow> k + 1);
               found = (if i = 1 then Inr home else getpwnam passwd (take (i - 1) (tl path)))
           in case found of
                Inl (KeyError name) \<Rightarrow> Inr path
              | Inl e \<Rightarrow> Inl e
              | Inr userhome \<Rightarrow>
                  (let expanded = rstrip_sep userhome @ drop i path
                   in Inr (if expanded = [] then ''/'' else expanded)))"

text \<open>
  \<open>realpath\<close> without \<open>strict\<close>: the function \<open>_joinrealpath\<close> of \<open>posixpath\<close>.  A component
  is looked up with \<open>lstat\<close>; one that is not there is kept as it is, so a path that
  does not exist raises nothing.  \<open>lstat\<close> raises \<open>ValueError\<close> on a path with a null
  character, and nothing catches it.  \<open>seen\<close> maps the links that were entered to their
  targets, once resolved.  The first argument bounds the number of steps: a step
  consumes a component or enters a link that was not seen before.  The result is
  \<open>None\<close> when \<open>lstat\<close> raises or the bound is reached.
\<close>

type_synonym seen = "(string \<times> string option) list"

fun walk :: "nat \<Rightarrow> fs \<Rightarrow> string \<Rightarrow> string \<Rightarrow> seen \<Rightarrow> ((string \<times> bool) \<times> seen) option" where
  "walk 0 fs path rest seen = None"
| "walk (Suc n) fs path rest seen =
     (if rest = [] then Some ((path, True), seen)
      else
        let name = takeWhile (\<lambda>c. c \<noteq> CHR ''/'') rest;
            rest' = drop (length name + 1) rest
        in if name = [] \<or> name = ''.'' then walk n fs path rest' seen
           else if name = ''..'' then
             (if path \<noteq> [] then
                (case posix_split path of
                   (h, t) \<Rightarrow>
                     walk n fs (if t = ''..'' then posix_join (posix_join h ''..'') ''..'' else h)
                       rest' seen)
              else walk n fs ''..'' rest' seen)
           else
             let newpath = posix_join path name
             in if CHR 0x00 \<in> set newpath then None
                else case node_at fs newpath of
                    Some (Link target) \<Rightarrow>
                      (case map_of seen newpath of
                         Some (Some p) \<Rightarrow> walk n fs p rest' seen
                       | Some None \<Rightarrow> Some ((posix_join newpath rest', False), seen)
                       | None \<Rightarrow>
                           (case walk n fs (if isabs target then ''/'' else path)
                                   (if isabs target then tl target else target)
                                   ((newpath, None) # seen) of
                              None \<Rightarrow> None
                            | Some ((p, ok), seen') \<Rightarrow>
                                if \<not> ok then Some ((posix_join p rest', False), seen')
                                else walk n fs p rest' ((newpath, Some p) # seen')))
                  | _ \<Rightarrow> walk n fs newpath rest' seen)"

definition link_steps :: "fs \<Rightarrow> nat" where
  "link_steps fs =
     sum_list (map (\<lambda>(p, nd). case nd of Link target \<Rightarrow> length target + 2 | _ \<Rightarrow> 0) fs)"

definition posix_realpath :: "string \<Rightarrow> fs \<Rightarrow> string \<Rightarrow> string option" where
  "posix_realpath cwd fs p =
     (case walk (length p + 2 + link_steps fs) fs
             (if isabs p then ''/'' else []) (if isabs p then tl p else p) [] of
        None \<Rightarrow> None
      | Some ((path, ok), seen) \<Rightarrow> Some (posix_abspath cwd path))"

definition posix_isdir :: "string \<Rightarrow> fs \<Rightarrow> string \<Rightarrow> bool" where
  "posix_isdir cwd fs p =
     (case posix_realpath cwd fs p of
        None \<Rightarrow> False
      | Some r \<Rightarrow> node_at fs r = Some Dir)"

definition posix_listdir :: "string \<Rightarrow> fs \<Rightarrow> string \<Rightarrow> error + string list" where
  "posix_listdir cwd fs p =
     (case posix_realpath cwd fs p of
        None \<Rightarrow> Inl (OSError ''embedded null byte'')
      | Some r \<Rightarrow>
          (case node_at fs r of
             None \<Rightarrow> Inl (OSError ''No such file or directory'')
           | Some Dir \<Rightarrow>
               Inr (map (\<lambda>(q, nd). snd (posix_split q))
                      (filter (\<lambda>(q, nd). q \<noteq> ''/'' \<and> fst (posix_split q) = r) fs))
           | Some _ \<Rightarrow> Inl (OSError ''Not a directory'')))"

definition posix_open_read :: "string \<Rightarrow> fs \<Rightarrow> string \<Rightarrow> encoding \<Rightarrow> error + string" where
  "posix_open_read cwd fs p enc =
     (case posix_realpath cwd fs p of
        None \<Rightarrow> Inl (OSError ''embedded null byte'')
      | Some r \<Rightarrow>
          (case node_at fs r of
             None \<Rightarrow> Inl (OSError ''No such file or directory'')
           | Some Dir \<Rightarrow> Inl (OSError ''Is a directory'')
           | Some (File text) \<Rightarrow> Inr text
           | Some (Link target) \<Rightarrow> Inl (OSError ''Too many levels of symbolic links'')))"

definition posix_open_write :: "string \<Rightarrow> fs \<Rightarrow> string \<Rightarrow> string \<Rightarrow> error option \<times> fs" where
  "posix_open_write cwd fs p text =
     (case posix_realpath cwd fs p of
        None \<Rightarrow> (Some (OSError ''embedded null byte''), fs)
      | Some r \<Rightarrow>
          (case node_at fs r of
             Some Dir \<Rightarrow> (Some (OSError ''Is a directory''), fs)
           | Some (Link target) \<Rightarrow> (Some (OSError ''Too many levels of symbolic links''), fs)
           | _ \<Rightarrow>
               if node_at fs (posix_dirname r) = Some Dir
               then (None, AList.update r (File text) fs)
               else (Some (OSError ''No such file or directory''), fs)))"

text \<open>
  \<open>os.makedirs(p, exist_ok=True)\<close>: the directories on the way to \<open>p\<close> that are missing
  are made, from the root down; a file in the way raises.
\<close>

fun make_each :: "fs \<Rightarrow> string list \<Rightarrow> error option \<times> fs" where
  "make_each fs [] = (None, fs)"
| "make_each fs (d # ds) =
     (case node_at fs d of
        None \<Rightarrow> make_each (fs @ [(d, Dir)]) ds
      | Some Dir \<Rightarrow> make_each fs ds
      | Some _ \<Rightarrow> (Some (OSError ''File exists''), fs))"

definition ancestors :: "string \<Rightarrow> string list" where
  "ancestors p =
     map (\<lambda>comps. ''/'' @ str_join ''/'' comps)
       (tl (prefixes (filter (\<lambda>part. part \<noteq> []) (split_on CHR ''/'' p))))"

definition posix_makedirs :: "string \<Rightarrow> fs \<Rightarrow> string \<Rightarrow> error option \<times> fs" where
  "posix_makedirs cwd fs p =
     (case posix_realpath cwd fs p of
        None \<Rightarrow> (Some (OSError ''embedded null byte''), fs)
      | Some r \<Rightarrow> make_each fs (ancestors r))"

text \<open>\<open>os.rename\<close>: the node and, for a directory, all that is below it get the new path.\<close>

definition posix_rename :: "fs \<Rightarrow> string \<Rightarrow> string \<Rightarrow> error option \<times> fs" where
  "posix_rename fs src dst =
     (if map_of fs src = None then (Some (OSError ''No such file or directory''), fs)
      else if node_at fs (posix_dirname dst) \<noteq> Some Dir
      then (Some (OSError ''No such file or directory''), fs)
      else (None,
            map (\<lambda>(q, nd).
                   if q = src \<or> startswith q (src @ ''/'')
                   then (dst @ drop (length src) q, nd) else (q, nd))
              (filter (\<lambda>(q, nd). \<not> (q = dst \<or> startswith q (dst @ ''/''))) fs)))"

text \<open>
  A differ that pairs no line of \<open>a\<close> with a line of \<open>b\<close>.  Its answer is that of
  \<open>SequenceMatcher\<close> whenever the two texts are equal or have no line in common.
\<close>

definition whole_opcodes :: "string list \<Rightarrow> string list \<Rightarrow> opcode_group list" where
  "whole_opcodes a b =
     (if a = b then []
      else [((if a = [] then Insert else if b = [] then Delete else Replace,
              0, length a, 0, length b), [])])"

text \<open>
  The platform.  It has no media types, no JSON and no floating-point numbers: the
  four reports raise.
\<close>

definition posix :: "(string \<times> string) list \<Rightarrow> string \<Rightarrow> string \<Rightarrow> fs platform" where
  "posix passwd home cwd =
     \<lparr> expanduser = (\<lambda>fs. posix_expanduser passwd home),
       abspath = (\<lambda>fs p. Inr (posix_abspath cwd p)),
       realpath = posix_realpath cwd,
       normpath = posix_normpath,
       dirname = posix_dirname,
       path_join = posix_join,
       isdir = posix_isdir cwd,
       listdir = posix_listdir cwd,
       open_read = posix_open_read cwd,
       open_write = posix_open_write cwd,
       makedirs = posix_makedirs cwd,
       rename = posix_rename,
       get_grouped_opcodes = whole_opcodes,
       media_report = (\<lambda>fs p. Inl (OSError ''Operation not supported'')),
       sizes_report = (\<lambda>fs p sort_by. Inl (OSError ''Operation not supported'')),
       tree_report = (\<lambda>fs p pats. Inl (OSError ''Operation not supported'')),
       stats_report = (\<lambda>fs p. Inl (OSError ''Operation not supported'')) \<rparr>"

text \<open>
  A file system for the examples: the allowed directory \<open>/srv\<close> with the files \<open>a.txt\<close>
  and \<open>b.txt\<close> and the link \<open>out\<close> to the directory \<open>/etc\<close>, which is not allowed.
\<close>

definition example_fs :: fs where
  "example_fs =
     [(''/srv'', Dir),
      (''/srv/a.txt'', File ''ab''),
      (''/srv/b.txt'', File ''foo''),
      (''/srv/c.txt'', File ''ab ab''),
      (''/srv/d.txt'', File ''aaa''),
      (''/srv/out'', Link ''/etc''),
      (''/etc'', Dir),
      (''/etc/passwd'', File ''root'')]"

definition example_pf :: "fs platform" where
  "example_pf = posix [(''user'', ''/home/user'')] ''/home/user'' ''/srv''"

definition example_server :: "fs server" where
  "example_server = \<lparr> allowed_directories = [''/srv''], world = example_fs \<rparr>"

text \<open>
  A file system with a link that leads back to itself: \<open>/srv/a\<close> is a link to \<open>a/b\<close>.
\<close>

definition loop_fs :: fs where
  "loop_fs = [(''/srv'', Dir), (''/srv/a'', Link ''a/b'')]"

subsection \<open>Paths without links\<close>

text \<open>
  The components of a path are what stands between its separators.  \<open>no_links fs p\<close>
  says that no symbolic link is met on the way from the root to \<open>p\<close>, \<open>p\<close> included:
  \<open>ancestors p\<close> are the paths of the components of \<open>p\<close>, from the first to all of them.
\<close>

definition components :: "string \<Rightarrow> string list" where
  "components p = filter (\<lambda>part. part \<noteq> []) (split_on CHR ''/'' p)"

definition from_root :: "string list \<Rightarrow> string" where
  "from_root comps = ''/'' @ str_join ''/'' comps"

definition is_link :: "fs \<Rightarrow> string \<Rightarrow> bool" where
  "is_link fs p = (case node_at fs p of Some (Link target) \<Rightarrow> True | _ \<Rightarrow> False)"

definition no_links :: "fs \<Rightarrow> string \<Rightarrow> bool" where
  "no_links fs p = list_all (\<lambda>q. \<not> is_link fs q) (ancestors p)"

text \<open>
  A plain component is a name: it is not empty, holds no separator, and is neither \<open>.\<close>
  nor \<open>..\<close>.  \<open>canonical k comps\<close> is the path of the components \<open>comps\<close> after \<open>k\<close>
  separators; a normalized absolute path has this form, with plain components and
  one or two separators.
\<close>

definition plain :: "string \<Rightarrow> bool" where
  "plain c = (c \<noteq> [] \<and> CHR ''/'' \<notin> set c \<and> c \<noteq> ''.'' \<and> c \<noteq> ''..'')"

definition canonical :: "nat \<Rightarrow> string list \<Rightarrow> string" where
  "canonical k comps = replicate k CHR ''/'' @ str_join ''/'' comps"

section \<open>Paths on the POSIX platform\<close>

lemma split_on_not_Nil [simp]: "split_on sep s \<noteq> []"
  by (induction s) (auto split: list.splits)

lemma split_on_no_sep: "x \<in> set (split_on sep s) \<Longrightarrow> sep \<notin> set x"
proof (induction s arbitrary: x)
  case Nil
  then show ?case by simp
next
  case (Cons c cs)
  then show ?case
    by (cases "split_on sep cs") (auto split: if_splits)
qed

lemma split_on_free: "sep \<notin> set x \<Longrightarrow> split_on sep x = [x]"
  by (induction x) auto

lemma split_on_append: "sep \<notin> set x \<Longrightarrow> split_on sep (x @ sep # ys) = x # split_on sep ys"
  by (induction x) auto

lemma split_on_join:
  "comps \<noteq> [] \<Longrightarrow> \<forall>c \<in> set comps. sep \<notin> set c \<Longrightarrow>
     split_on sep (str_join [sep] comps) = comps"
  by (induction "[sep]" comps rule: str_join.induct) (simp_all add: split_on_free split_on_append)

lemma split_on_replicate:
  "split_on sep (replicate k sep @ s) = replicate k [] @ split_on sep s"
  by (induction k) simp_all

lemma plain_last: "list_all plain acc \<Longrightarrow> acc \<noteq> [] \<Longrightarrow> last acc \<noteq> ''..''"
  by (induction acc) (auto simp add: plain_def)

lemma plain_butlast: "list_all plain acc \<Longrightarrow> list_all plain (butlast acc)"
  by (induction acc) auto

lemma norm_comps_plain:
  "list_all plain acc \<Longrightarrow> \<forall>p \<in> set parts. CHR ''/'' \<notin> set p \<Longrightarrow>
     list_all plain (norm_comps True acc parts)"
proof (induction parts arbitrary: acc)
  case Nil
  then show ?case by simp
next
  case (Cons part parts)
  have rest: "\<forall>p \<in> set parts. CHR ''/'' \<notin> set p"
    using Cons.prems(2) by simp
  have sepfree: "CHR ''/'' \<notin> set part"
    using Cons.prems(2) by simp
  show ?case
  proof (cases "part = [] \<or> part = ''.''")
    case True
    then show ?thesis
      using Cons.IH [OF Cons.prems(1) rest] by auto
  next
    case False
    show ?thesis
    proof (cases "part = ''..''")
      case True
      then show ?thesis
        using Cons.IH [OF plain_butlast [OF Cons.prems(1)] rest]
          Cons.IH [OF Cons.prems(1) rest] plain_last [OF Cons.prems(1)]
        by auto
    next
      case notdd: False
      have "plain part"
        using False notdd sepfree by (simp add: plain_def)
      then have "list_all plain (acc @ [part])"
        using Cons.prems(1) by simp
      from Cons.IH [OF this rest] show ?thesis
        using False notdd by simp
    qed
  qed
qed

lemma norm_comps_id: "list_all plain parts \<Longrightarrow> norm_comps r acc parts = acc @ parts"
  by (induction parts arbitrary: acc) (auto simp add: plain_def)

lemma norm_comps_skip: "norm_comps r acc (replicate k [] @ parts) = norm_comps r acc parts"
  by (induction k) simp_all

lemma str_join_snoc:
  "str_join sep (xs @ [c]) = (if xs = [] then c else str_join sep xs @ sep @ c)"
  by (induction sep xs rule: str_join.induct) simp_all

lemma str_join_Cons:
  "str_join sep (c # cs) = (if cs = [] then c else c @ sep @ str_join sep cs)"
  by (cases cs) simp_all

lemma set_str_join:
  "x \<in> set (str_join sep comps) \<Longrightarrow> x \<in> set sep \<or> (\<exists>c \<in> set comps. x \<in> set c)"
  by (induction sep comps rule: str_join.induct) auto

lemma set_str_join_elem:
  "c \<in> set comps \<Longrightarrow> x \<in> set c \<Longrightarrow> x \<in> set (str_join sep comps)"
  by (induction sep comps rule: str_join.induct) auto

lemma plain_ends:
  assumes "plain c"
  shows "c \<noteq> []" and "hd c \<noteq> CHR ''/''" and "last c \<noteq> CHR ''/''"
    and "\<And>x. x \<in> set c \<Longrightarrow> x \<noteq> CHR ''/''"
proof -
  from assms show ne: "c \<noteq> []" and all: "\<And>x. x \<in> set c \<Longrightarrow> x \<noteq> CHR ''/''"
    by (auto simp add: plain_def)
  from ne have "hd c \<in> set c" and "last c \<in> set c"
    by simp_all
  with all show "hd c \<noteq> CHR ''/''" and "last c \<noteq> CHR ''/''"
    by blast+
qed

lemma str_join_hd:
  "list_all plain comps \<Longrightarrow> comps \<noteq> [] \<Longrightarrow>
     str_join ''/'' comps \<noteq> [] \<and> hd (str_join ''/'' comps) \<noteq> CHR ''/''"
  by (cases comps) (auto simp add: str_join_Cons hd_append dest: plain_ends)

lemma str_join_last:
  "list_all plain comps \<Longrightarrow> comps \<noteq> [] \<Longrightarrow>
     str_join ''/'' comps \<noteq> [] \<and> last (str_join ''/'' comps) \<noteq> CHR ''/''"
proof (induction comps rule: rev_induct)
  case Nil
  then show ?case by simp
next
  case (snoc c cs)
  then have "plain c" by simp
  then have "c \<noteq> []" and "last c \<noteq> CHR ''/''"
    by (rule plain_ends)+
  then show ?case
    by (simp add: str_join_snoc)
qed

lemma from_root_snoc:
  assumes "list_all plain pre" and "plain c"
  shows "posix_join (from_root pre) c = from_root (pre @ [c])"
proof (cases "pre = []")
  case True
  from assms(2) have "\<not> startswith c ''/''"
    by (cases c) (auto simp add: plain_def startswith_def)
  then show ?thesis
    using True by (simp add: posix_join_def from_root_def)
next
  case False
  from assms(2) have c: "\<not> startswith c ''/''"
    by (cases c) (auto simp add: plain_def startswith_def)
  from str_join_last [OF assms(1) False]
  have "from_root pre \<noteq> []" and "last (from_root pre) \<noteq> CHR ''/''"
    by (simp_all add: from_root_def)
  then show ?thesis
    using c False by (simp add: posix_join_def from_root_def str_join_snoc)
qed

lemma takeWhile_join:
  "plain c \<Longrightarrow> takeWhile (\<lambda>x. x \<noteq> CHR ''/'') (str_join ''/'' (c # cs)) = c"
proof -
  assume "plain c"
  then have all: "\<And>x. x \<in> set c \<Longrightarrow> x \<noteq> CHR ''/''"
    by (rule plain_ends)
  then have "takeWhile (\<lambda>x. x \<noteq> CHR ''/'') (c @ ys) = c @ takeWhile (\<lambda>x. x \<noteq> CHR ''/'') ys" for ys
    by simp
  from this [of "[]"] this [of "''/'' @ str_join ''/'' cs"] show ?thesis
    by (simp add: str_join_Cons)
qed

lemma drop_join:
  "drop (length c + 1) (str_join ''/'' (c # cs)) = str_join ''/'' cs"
  by (simp add: str_join_Cons)


lemma startswith_Cons: "startswith (c # cs) (d # ds) \<longleftrightarrow> c = d \<and> startswith cs ds"
  by (auto simp add: startswith_def)

lemma startswith_empty: "startswith s []"
  by (simp add: startswith_def)

lemma startswith_of_Nil: "startswith [] p \<longleftrightarrow> p = []"
  by (auto simp add: startswith_def)

lemmas startswith_simps = startswith_Cons startswith_empty startswith_of_Nil

lemma join_not_slash:
  "list_all plain comps \<Longrightarrow> \<not> startswith (str_join ''/'' comps) (CHR ''/'' # p)"
proof (cases "comps = []")
  case True
  then show ?thesis by (simp add: startswith_of_Nil)
next
  case False
  assume "list_all plain comps"
  from str_join_hd [OF this False] show ?thesis
    by (cases "str_join ''/'' comps") (auto simp add: startswith_simps)
qed

lemma normpath_abs:
  assumes "isabs x"
  shows "\<exists>k comps. (k = 1 \<or> k = 2) \<and> list_all plain comps \<and> posix_normpath x = canonical k comps"
proof -
  let ?k = "if startswith x ''//'' \<and> \<not> startswith x ''///'' then 2 else (1::nat)"
  let ?comps = "norm_comps True [] (split_on CHR ''/'' x)"
  from assms have ne: "x \<noteq> []" and sl: "startswith x ''/''"
    by (auto simp add: isabs_def startswith_def)
  have "list_all plain ?comps"
    by (rule norm_comps_plain) (auto dest: split_on_no_sep)
  moreover have "posix_normpath x = canonical ?k ?comps"
    using ne sl by (simp add: posix_normpath_def canonical_def Let_def)
  ultimately show ?thesis
    by (intro exI [of _ ?k] exI [of _ ?comps]) simp
qed

lemma split_on_canonical:
  "list_all plain comps \<Longrightarrow>
     split_on CHR ''/'' (canonical k comps) = replicate k [] @ (if comps = [] then [[]] else comps)"
proof -
  assume p: "list_all plain comps"
  have "comps \<noteq> [] \<Longrightarrow> split_on CHR ''/'' (str_join ''/'' comps) = comps"
    using p by (intro split_on_join) (auto simp add: list_all_iff dest: plain_ends)
  then show ?thesis
    by (auto simp add: canonical_def split_on_replicate)
qed

lemma normpath_canonical:
  assumes "list_all plain comps" and "k = 1 \<or> k = 2"
  shows "posix_normpath (canonical k comps) = canonical k comps"
proof -
  have ne: "canonical k comps \<noteq> []"
    using assms(2) by (auto simp add: canonical_def)
  have s1: "startswith (canonical k comps) ''/''"
    using assms(2) by (auto simp add: canonical_def startswith_simps numeral_2_eq_2)
  have s2: "startswith (canonical k comps) ''//'' \<longleftrightarrow> k = 2"
    using assms(2) join_not_slash [OF assms(1)]
    by (auto simp add: canonical_def startswith_simps numeral_2_eq_2)
  have s3: "\<not> startswith (canonical k comps) ''///''"
    using assms(2) join_not_slash [OF assms(1)]
    by (auto simp add: canonical_def startswith_simps numeral_2_eq_2)
  have n: "norm_comps r [] (split_on CHR ''/'' (canonical k comps)) = comps" for r
    using assms(1) by (simp add: split_on_canonical norm_comps_skip norm_comps_id)
  show ?thesis
    unfolding posix_normpath_def Let_def n using ne s1 s2 s3 assms(2)
    by (auto simp add: canonical_def)
qed

lemma components_canonical:
  "list_all plain comps \<Longrightarrow> components (canonical k comps) = comps"
proof -
  assume p: "list_all plain comps"
  then have "filter (\<lambda>part. part \<noteq> []) comps = comps"
    by (induction comps) (auto dest: plain_ends)
  then show ?thesis
    using p by (simp add: components_def split_on_canonical)
qed

lemma ancestors_canonical:
  "list_all plain comps \<Longrightarrow> ancestors (canonical k comps) = map from_root (tl (prefixes comps))"
  using components_canonical [of comps k]
  by (simp add: ancestors_def components_def from_root_def [abs_def])

lemma tl_prefixes_Cons:
  "tl (prefixes (c # cs)) = [c] # map ((#) c) (tl (prefixes cs))"
  by (cases cs) simp_all

lemma nul_from_root:
  "CHR 0x00 \<in> set (from_root comps) \<longleftrightarrow> (\<exists>c \<in> set comps. CHR 0x00 \<in> set c)"
  by (auto simp add: from_root_def dest: set_str_join intro: set_str_join_elem)

lemma walk_plain:
  assumes "list_all plain comps" and "list_all plain pre"
    and "list_all (\<lambda>ys. \<not> is_link fs (from_root (pre @ ys))) (tl (prefixes comps))"
    and "length (str_join ''/'' comps) < n"
    and "CHR 0x00 \<notin> set (from_root pre)"
  shows "walk n fs (from_root pre) (str_join ''/'' comps) seen =
     (if \<exists>c \<in> set comps. CHR 0x00 \<in> set c then None
      else Some ((from_root (pre @ comps), True), seen))"
  using assms
proof (induction comps arbitrary: pre n)
  case Nil
  then obtain m where "n = Suc m"
    by (cases n) auto
  then show ?case by simp
next
  case (Cons c cs)
  from Cons.prems(1) have c: "plain c" and cs: "list_all plain cs"
    by simp_all
  let ?rest = "str_join ''/'' (c # cs)"
  from plain_ends(1) [OF c] have rest: "?rest \<noteq> []"
    by (simp add: str_join_Cons)
  from Cons.prems(4) obtain m where n: "n = Suc m"
    by (cases n) auto
  have name: "takeWhile (\<lambda>x. x \<noteq> CHR ''/'') ?rest = c"
    by (rule takeWhile_join [OF c])
  have rest': "drop (length c + 1) ?rest = str_join ''/'' cs"
    by (rule drop_join)
  have notdot: "c \<noteq> []" "c \<noteq> ''.''" "c \<noteq> ''..''"
    using c by (auto simp add: plain_def)
  have newpath: "posix_join (from_root pre) c = from_root (pre @ [c])"
    by (rule from_root_snoc [OF Cons.prems(2) c])
  have pre': "list_all plain (pre @ [c])"
    using Cons.prems(2) c by simp
  from Cons.prems(3) have nolink: "\<not> is_link fs (from_root (pre @ [c]))"
    and links: "list_all (\<lambda>ys. \<not> is_link fs (from_root ((pre @ [c]) @ ys))) (tl (prefixes cs))"
    by (auto simp add: list_all_iff dest: list.set_sel(2) [rotated])
  have pos: "0 < length c"
    using plain_ends(1) [OF c] by simp
  have fuel: "length (str_join ''/'' cs) < m"
  proof (cases "cs = []")
    case True
    then have "length ?rest = length c" and "length (str_join ''/'' cs) = 0"
      by simp_all
    with pos Cons.prems(4) show ?thesis
      unfolding n by linarith
  next
    case False
    then have "length ?rest = length c + 1 + length (str_join ''/'' cs)"
      by (simp add: str_join_Cons)
    with Cons.prems(4) show ?thesis
      unfolding n by linarith
  qed
  have step: "walk n fs (from_root pre) ?rest seen =
      (if CHR 0x00 \<in> set (from_root (pre @ [c])) then None
       else walk m fs (from_root (pre @ [c])) (str_join ''/'' cs) seen)"
    unfolding n walk.simps using rest nolink notdot
    by (simp only: name rest' newpath Let_def is_link_def if_False simp_thms
        split: option.splits node.splits) (auto split: option.splits node.splits)
  show ?case
  proof (cases "CHR 0x00 \<in> set c")
    case True
    then have "CHR 0x00 \<in> set (from_root (pre @ [c]))"
      by (simp add: nul_from_root)
    with True show ?thesis
      unfolding step by simp
  next
    case False
    with Cons.prems(5) have nul: "CHR 0x00 \<notin> set (from_root (pre @ [c]))"
      by (simp add: nul_from_root)
    from Cons.IH [OF cs pre' links fuel nul] nul False show ?thesis
      unfolding step by simp
  qed
qed


lemma canonical_1: "canonical (Suc 0) comps = from_root comps"
  by (simp add: canonical_def from_root_def)

lemma isabs_Cons: "isabs p \<longleftrightarrow> (\<exists>q. p = CHR ''/'' # q)"
  by (cases p) (auto simp add: isabs_def startswith_def)

lemma isabs_expanduser: "isabs p \<Longrightarrow> posix_expanduser passwd home p = Inr p"
  by (auto simp add: isabs_Cons posix_expanduser_def startswith_simps)

lemma isabs_normpath: "isabs x \<Longrightarrow> isabs (posix_normpath x)"
  using normpath_abs [of x] by (auto simp add: canonical_def isabs_Cons numeral_2_eq_2)

lemma normpath_idem: "isabs x \<Longrightarrow> posix_normpath (posix_normpath x) = posix_normpath x"
  using normpath_abs [of x] by (auto simp add: normpath_canonical)

lemma isabs_join: "isabs cwd \<Longrightarrow> isabs (posix_join cwd p)"
proof (cases "startswith p ''/''")
  case True
  then show ?thesis
    by (simp add: posix_join_def isabs_def)
next
  case False
  assume "isabs cwd"
  then show ?thesis
    using False by (auto simp add: isabs_Cons posix_join_def)
qed

lemma abspath_abs:
  assumes "isabs cwd"
  shows "isabs (posix_abspath cwd p)"
    and "posix_normpath (posix_abspath cwd p) = posix_abspath cwd p"
proof -
  have "isabs (if isabs p then p else posix_join cwd p)"
    using assms by (simp add: isabs_join)
  then show "isabs (posix_abspath cwd p)"
    and "posix_normpath (posix_abspath cwd p) = posix_abspath cwd p"
    unfolding posix_abspath_def by (rule isabs_normpath, rule normpath_idem)
qed

lemma abspath_normal: "isabs a \<Longrightarrow> posix_normpath a = a \<Longrightarrow> posix_abspath cwd a = a"
  by (simp add: posix_abspath_def)

lemma canonical_form:
  assumes "isabs a" and "posix_normpath a = a" and "\<not> startswith a ''//''"
  obtains comps where "list_all plain comps" and "a = from_root comps"
proof -
  from normpath_abs [OF assms(1)] assms(2)
  obtain k comps where k: "k = 1 \<or> k = 2" and p: "list_all plain comps" and a: "a = canonical k comps"
    by auto
  from assms(3) a have "k \<noteq> 2"
    by (auto simp add: canonical_def startswith_simps numeral_2_eq_2)
  with k a have "a = from_root comps"
    by (simp add: canonical_1)
  with p show ?thesis
    by (rule that)
qed

lemma realpath_link_free:
  assumes "isabs a" and "posix_normpath a = a" and "\<not> startswith a ''//''" and "no_links fs a"
  shows "posix_realpath cwd fs a = (if CHR 0x00 \<in> set a then None else Some a)"
proof -
  from assms(1-3) obtain comps where p: "list_all plain comps" and a: "a = from_root comps"
    by (rule canonical_form)
  have links: "list_all (\<lambda>ys. \<not> is_link fs (from_root ([] @ ys))) (tl (prefixes comps))"
    using assms(4) ancestors_canonical [OF p, of "Suc 0"]
    by (simp add: no_links_def a canonical_1 list_all_iff)
  have fuel: "length (str_join ''/'' comps) < length a + 2 + link_steps fs"
    by (simp add: a from_root_def)
  have w: "walk (length a + 2 + link_steps fs) fs (from_root []) (str_join ''/'' comps) [] =
     (if \<exists>c \<in> set comps. CHR 0x00 \<in> set c then None
      else Some ((from_root ([] @ comps), True), []))"
    by (rule walk_plain [OF p _ links fuel]) (simp_all add: from_root_def)
  have tl: "tl a = str_join ''/'' comps" and root: "from_root [] = ''/''"
    by (simp_all add: a from_root_def)
  have nul: "(\<exists>c \<in> set comps. CHR 0x00 \<in> set c) \<longleftrightarrow> CHR 0x00 \<in> set a"
    by (simp add: a nul_from_root)
  from w show ?thesis
    unfolding posix_realpath_def tl root nul using assms(1)
    by (simp add: a [symmetric] abspath_normal [OF assms(1,2)])
qed

lemma normalized_path_posix:
  "normalized_path (posix passwd home cwd) fs P =
     (case posix_expanduser passwd home P of
        Inl e \<Rightarrow> Inl e
      | Inr expanded \<Rightarrow>
          Inr (case posix_realpath cwd fs (posix_abspath cwd expanded) of
                 Some resolved \<Rightarrow> posix_normpath resolved
               | None \<Rightarrow> posix_normpath (posix_abspath cwd expanded)))"
  by (simp add: normalized_path_def expand_home_def normalize_path_def posix_def
      split: sum.splits option.splits)

lemma normalized_link_free:
  assumes "isabs a" and "posix_normpath a = a" and "\<not> startswith a ''//''" and "no_links fs a"
  shows "normalized_path (posix passwd home cwd) fs a = Inr a"
  using realpath_link_free [OF assms, of cwd] assms(1,2)
  by (simp add: normalized_path_posix isabs_expanduser abspath_normal)

lemma normalized_abs:
  assumes "isabs cwd" and "normalized_path (posix passwd home cwd) fs P = Inr V"
  shows "isabs V \<and> posix_normpath V = V"
proof -
  from assms(2) obtain e where
    v: "V = (case posix_realpath cwd fs (posix_abspath cwd e) of
               Some resolved \<Rightarrow> posix_normpath resolved
             | None \<Rightarrow> posix_normpath (posix_abspath cwd e))"
    by (auto simp add: normalized_path_posix split: sum.splits)
  show ?thesis
  proof (cases "posix_realpath cwd fs (posix_abspath cwd e)")
    case None
    with v abspath_abs [OF assms(1), of e] show ?thesis
      by simp
  next
    case (Some r)
    then obtain path where "r = posix_abspath cwd path"
      by (auto simp add: posix_realpath_def split: option.splits)
    with v Some abspath_abs [OF assms(1), of path] show ?thesis
      by simp
  qed
qed




section \<open>Path validation\<close>

lemma startswith_prefix: "startswith s p \<longleftrightarrow> prefix p s"
proof
  assume "startswith s p"
  then have "s = p @ drop (length p) s"
    unfolding startswith_def by (metis append_take_drop_id)
  then show "prefix p s"
    by (metis prefixI)
next
  assume "prefix p s"
  then obtain zs where "s = p @ zs"
    by (auto elim: prefixE)
  then show "startswith s p"
    unfolding startswith_def by simp
qed

lemma check_allowed_decision:
  "check_allowed roots normalized file_path =
     (if \<exists>root \<in> set roots. prefix root normalized then Inr normalized
      else Inl (AccessDenied file_path))"
  by (induction roots) (simp_all add: startswith_prefix)

lemma check_allowed_result:
  "check_allowed roots normalized file_path = Inr v \<Longrightarrow>
     v = normalized \<and> (\<exists>root \<in> set roots. prefix root normalized)"
  by (simp add: check_allowed_decision split: if_splits)

lemma validate_path_decision:
  "validate_path pf s P =
     (case normalized_path pf (world s) P of
        Inl e \<Rightarrow> Inl e
      | Inr normalized \<Rightarrow>
          if \<exists>root \<in> set (allowed_directories s). prefix root normalized then Inr normalized
          else Inl (AccessDenied P))"
  by (simp add: validate_path_def check_allowed_decision split: sum.splits)

lemma validate_path_pipeline:
  "validate_path pf s P =
     (case expanduser pf (world s) P of
        Inl e \<Rightarrow> Inl e
      | Inr expanded \<Rightarrow>
          (case abspath pf (world s) expanded of
             Inl e \<Rightarrow> Inl e
           | Inr absolute \<Rightarrow>
               (let normalized =
                      (case realpath pf (world s) absolute of
                         Some resolved \<Rightarrow> normpath pf resolved
                       | None \<Rightarrow> normpath pf absolute)
                in if \<exists>root \<in> set (allowed_directories s). prefix root normalized
                   then Inr normalized
                   else Inl (AccessDenied P))))"
  by (simp add: validate_path_decision normalized_path_def expand_home_def normalize_path_def
      split: sum.splits option.splits)

lemma validate_path_Inr:
  "validate_path pf s P = Inr V \<longleftrightarrow>
     normalized_path pf (world s) P = Inr V
     \<and> (\<exists>root \<in> set (allowed_directories s). prefix root V)"
  by (auto simp add: validate_path_decision split: sum.splits if_splits)

text \<open>
  Claim C1.  Whatever the platform, the allowed directories, the state of the world
  and the path \<open>P\<close> given, \<open>validate_path\<close> decides on one string: \<open>P\<close> expanded by
  \<open>expanduser\<close>, made absolute by \<open>abspath\<close>, resolved by \<open>realpath\<close> (left as it is when
  \<open>realpath\<close> raises) and normalized by \<open>normpath\<close>.  It returns that string when an
  allowed directory is a prefix of it, and raises the access-denied error, carrying
  \<open>P\<close> as it was given, when none is.  The test is the prefix test on strings (\<open>prefix\<close>
  on lists of characters): nothing asks that the allowed directory ends where a
  component of the path ends.  When \<open>expanduser\<close> or \<open>abspath\<close> raises there is no such
  string, and the exception leaves \<open>validate_path\<close>.
\<close>

theorem validate_path_containment:
  "validate_path pf s P =
     (case expanduser pf (world s) P of
        Inl e \<Rightarrow> Inl e
      | Inr expanded \<Rightarrow>
          (case abspath pf (world s) expanded of
             Inl e \<Rightarrow> Inl e
           | Inr absolute \<Rightarrow>
               (let normalized =
                      (case realpath pf (world s) absolute of
                         Some resolved \<Rightarrow> normpath pf resolved
                       | None \<Rightarrow> normpath pf absolute)
                in if \<exists>root \<in> set (allowed_directories s). prefix root normalized
                   then Inr normalized
                   else Inl (AccessDenied P))))"
  by (rule validate_path_pipeline)

text \<open>
  On the example platform, with \<open>/srv\<close> allowed: a path is expanded, made absolute and
  normalized before it is compared; a link that leads out of \<open>/srv\<close> is followed, and
  the path is refused; the test does not follow the components, and a path below
  \<open>/srv2\<close> is accepted.
\<close>

lemma validate_path_examples:
  "validate_path example_pf example_server ''~/../../srv/./a.txt'' = Inr ''/srv/a.txt''"
  "validate_path example_pf example_server ''docs/../a.txt'' = Inr ''/srv/a.txt''"
  "validate_path example_pf example_server ''~/notes.txt'' = Inl (AccessDenied ''~/notes.txt'')"
  "validate_path example_pf example_server ''/srv/out/passwd''
     = Inl (AccessDenied ''/srv/out/passwd'')"
  "validate_path example_pf example_server ''/srv/../etc/passwd''
     = Inl (AccessDenied ''/srv/../etc/passwd'')"
  "validate_path example_pf example_server ''/srv2/x'' = Inr ''/srv2/x''"
  by code_simp+

text \<open>
  Claim C10, as the code has it.  With no allowed directory \<open>validate_path\<close> accepts no
  path, on any platform and in any state of the world.  It raises the access-denied
  error when \<open>expanduser\<close> and \<open>abspath\<close> return; they are called before the loop and
  outside the \<open>try\<close>, and when one of them raises, its exception is the one that leaves
  \<open>validate_path\<close>.
\<close>

theorem validate_path_no_roots:
  "validate_path pf \<lparr> allowed_directories = [], world = w \<rparr> P =
     (case expanduser pf w P of
        Inl e \<Rightarrow> Inl e
      | Inr expanded \<Rightarrow>
          (case abspath pf w expanded of
             Inl e \<Rightarrow> Inl e
           | Inr absolute \<Rightarrow> Inl (AccessDenied P)))
   \<and> (\<forall>v. validate_path pf \<lparr> allowed_directories = [], world = w \<rparr> P \<noteq> Inr v)"
  by (simp add: validate_path_pipeline split: sum.splits)

text \<open>
  Claim C10 as it is stated does not hold for every path.  For the path \<open>~\<close> followed
  by a null character, \<open>expanduser\<close> looks up the user whose name is the null character,
  and \<open>pwd.getpwnam\<close> raises \<open>ValueError: embedded null byte\<close>: the call fails, but not
  with the access-denied error.
\<close>

theorem validate_path_no_roots_counterexample:
  "validate_path example_pf \<lparr> allowed_directories = [], world = example_fs \<rparr>
     [CHR ''~'', CHR 0x00]
     = Inl (ValueError ''embedded null byte'')"
  by code_simp

text \<open>
  Claim C8 as it is stated does not hold.  In \<open>loop_fs\<close> the link \<open>/srv/a\<close> leads to
  \<open>a/b\<close>, that is, through itself.  \<open>realpath\<close> gives up on such a link and returns the
  path with the link still in it: \<open>/srv/a\<close> validates to \<open>/srv/a/b\<close>, and \<open>/srv/a/b\<close>
  validates to \<open>/srv/a/b/b\<close>.
\<close>

theorem validate_path_idempotent_counterexample:
  "validate_path example_pf \<lparr> allowed_directories = [''/srv''], world = loop_fs \<rparr> ''/srv/a''
     = Inr ''/srv/a/b''
   \<and> validate_path example_pf \<lparr> allowed_directories = [''/srv''], world = loop_fs \<rparr> ''/srv/a/b''
     = Inr ''/srv/a/b/b''"
  by code_simp

text \<open>
  Claim C8, as the code has it, on the POSIX platform with an absolute working
  directory.  A path \<open>V\<close> that \<open>validate_path\<close> returns is accepted again, and returned
  as it is, when no symbolic link is left in it (no path from the root to \<open>V\<close>, \<open>V\<close>
  included, is a link) and it does not begin with two separators.
\<close>

theorem validate_path_idempotent:
  assumes "pf = posix passwd home cwd"
    and "isabs cwd"
    and "validate_path pf s P = Inr V"
    and "no_links (world s) V"
    and "\<not> startswith V ''//''"
  shows "validate_path pf s V = Inr V"
proof -
  from assms(3) have n: "normalized_path pf (world s) P = Inr V"
    and root: "\<exists>root \<in> set (allowed_directories s). prefix root V"
    by (simp_all add: validate_path_Inr)
  from normalized_abs [OF assms(2) n [unfolded assms(1)]]
  have "isabs V" and "posix_normpath V = V"
    by simp_all
  then have "normalized_path pf (world s) V = Inr V"
    unfolding assms(1) using assms(5,4) by (rule normalized_link_free)
  with root show ?thesis
    by (simp add: validate_path_Inr)
qed

text \<open>
  With \<open>/srv\<close> and \<open>/etc\<close> allowed, \<open>/srv/out/passwd\<close> is resolved through the link
  \<open>/srv/out\<close> to \<open>/etc/passwd\<close>, which has no link in it and validates to itself.
\<close>

theorem validate_path_idempotent_witness:
  "isabs ''/srv''
   \<and> validate_path example_pf (example_server\<lparr>allowed_directories := [''/srv'', ''/etc'']\<rparr>)
       ''/srv/out/passwd'' = Inr ''/etc/passwd''
   \<and> no_links (world (example_server\<lparr>allowed_directories := [''/srv'', ''/etc'']\<rparr>))
       ''/etc/passwd''
   \<and> \<not> startswith ''/etc/passwd'' ''//''
   \<and> validate_path example_pf (example_server\<lparr>allowed_directories := [''/srv'', ''/etc'']\<rparr>)
       ''/etc/passwd'' = Inr ''/etc/passwd''"
proof -
  let ?s = "example_server\<lparr>allowed_directories := [''/srv'', ''/etc'']\<rparr>"
  have 1: "example_pf = posix [(''user'', ''/home/user'')] ''/home/user'' ''/srv''"
    by (rule example_pf_def)
  have 2: "isabs ''/srv''"
    by code_simp
  have 3: "validate_path example_pf ?s ''/srv/out/passwd'' = Inr ''/etc/passwd''"
    by code_simp
  have 4: "no_links (world ?s) ''/etc/passwd''"
    by code_simp
  have 5: "\<not> startswith ''/etc/passwd'' ''//''"
    by code_simp
  from validate_path_idempotent [OF 1 2 3 4 5] 2 3 4 5 show ?thesis
    by (intro conjI)
qed




section \<open>Edits\<close>

subsection \<open>Finding and counting\<close>

declare count_sub.simps [simp del]

lemma startswith_Nil [simp]: "startswith [] sub \<longleftrightarrow> sub = []"
  by (auto simp: startswith_def)

lemma find_sub_None_iff:
  "find_sub s sub = None \<longleftrightarrow> (\<forall>i \<le> length s. \<not> startswith (drop i s) sub)"
proof (induction s)
  case Nil
  then show ?case by simp
next
  case (Cons c cs)
  show ?case
  proof (cases "startswith (c # cs) sub")
    case True
    then have "startswith (drop 0 (c # cs)) sub" by simp
    with True show ?thesis by fastforce
  next
    case False
    have "(\<forall>i \<le> length (c # cs). \<not> startswith (drop i (c # cs)) sub)
        \<longleftrightarrow> (\<forall>j \<le> length cs. \<not> startswith (drop j cs) sub)"
    proof
      assume a: "\<forall>i \<le> length (c # cs). \<not> startswith (drop i (c # cs)) sub"
      show "\<forall>j \<le> length cs. \<not> startswith (drop j cs) sub"
      proof (intro allI impI)
        fix j assume "j \<le> length cs"
        with a have "\<not> startswith (drop (Suc j) (c # cs)) sub" by (metis Suc_le_mono length_Cons)
        then show "\<not> startswith (drop j cs) sub" by simp
      qed
    next
      assume a: "\<forall>j \<le> length cs. \<not> startswith (drop j cs) sub"
      show "\<forall>i \<le> length (c # cs). \<not> startswith (drop i (c # cs)) sub"
      proof (intro allI impI)
        fix i assume i: "i \<le> length (c # cs)"
        show "\<not> startswith (drop i (c # cs)) sub"
        proof (cases i)
          case 0
          with False show ?thesis by simp
        next
          case (Suc j)
          with i a show ?thesis by simp
        qed
      qed
    qed
    with False Cons.IH show ?thesis by simp
  qed
qed

lemma find_sub_Some_iff:
  "find_sub s sub = Some i \<longleftrightarrow>
     i \<le> length s \<and> startswith (drop i s) sub \<and> (\<forall>j < i. \<not> startswith (drop j s) sub)"
proof (induction s arbitrary: i)
  case Nil
  then show ?case by auto
next
  case (Cons c cs)
  show ?case
  proof (cases "startswith (c # cs) sub")
    case True
    then have "startswith (drop 0 (c # cs)) sub" by simp
    with True show ?thesis by (cases i) auto
  next
    case False
    show ?thesis
    proof (cases i)
      case 0
      with False show ?thesis by simp
    next
      case (Suc k)
      have "(\<forall>j < Suc k. \<not> startswith (drop j (c # cs)) sub)
          \<longleftrightarrow> (\<forall>j < k. \<not> startswith (drop j cs) sub)"
      proof
        assume a: "\<forall>j < Suc k. \<not> startswith (drop j (c # cs)) sub"
        show "\<forall>j < k. \<not> startswith (drop j cs) sub"
        proof (intro allI impI)
          fix j assume "j < k"
          with a have "\<not> startswith (drop (Suc j) (c # cs)) sub" by (metis Suc_less_eq)
          then show "\<not> startswith (drop j cs) sub" by simp
        qed
      next
        assume a: "\<forall>j < k. \<not> startswith (drop j cs) sub"
        show "\<forall>j < Suc k. \<not> startswith (drop j (c # cs)) sub"
        proof (intro allI impI)
          fix j assume j: "j < Suc k"
          show "\<not> startswith (drop j (c # cs)) sub"
          proof (cases j)
            case 0
            with False show ?thesis by simp
          next
            case (Suc m)
            with j a show ?thesis by simp
          qed
        qed
      qed
      with False Suc Cons.IH [of k] show ?thesis by auto
    qed
  qed
qed

lemma set_occurrences:
  "set (occurrences s sub) = {i. i \<le> length s \<and> startswith (drop i s) sub}"
  by (auto simp add: occurrences_def less_Suc_eq_le simp del: upt_Suc)

lemma contains_occurrences: "contains s sub \<longleftrightarrow> occurrences s sub \<noteq> []"
proof -
  have "occurrences s sub \<noteq> [] \<longleftrightarrow> set (occurrences s sub) \<noteq> {}" by simp
  also have "\<dots> \<longleftrightarrow> (\<exists>i \<le> length s. startswith (drop i s) sub)"
    unfolding set_occurrences by auto
  also have "\<dots> \<longleftrightarrow> find_sub s sub \<noteq> None"
    using find_sub_None_iff [of s sub] by auto
  finally show ?thesis by (simp add: contains_def)
qed


lemma occurrences_single:
  assumes "occurrences s sub = [i]"
  shows "find_sub s sub = Some i" and "count_sub s sub = 1"
proof -
  from assms have "set (occurrences s sub) = {i}" by simp
  then have only: "\<And>j. j \<le> length s \<and> startswith (drop j s) sub \<longleftrightarrow> j = i"
    unfolding set_occurrences by auto
  then have i: "i \<le> length s" "startswith (drop i s) sub" by auto
  from only have "\<forall>j < i. \<not> startswith (drop j s) sub"
    using i(1) by (metis less_imp_le_nat nat_less_le order_trans)
  with i show found: "find_sub s sub = Some i"
    by (simp add: find_sub_Some_iff)
  show "count_sub s sub = 1"
  proof (cases "sub = []")
    case True
    have "length s \<le> length s \<and> startswith (drop (length s) s) sub"
      using True by (simp add: startswith_def)
    moreover have "0 \<le> length s \<and> startswith (drop 0 s) sub"
      using True by (simp add: startswith_def)
    ultimately have "length s = 0" using only by metis
    moreover from True have "count_sub s sub = length s + 1"
      by (subst count_sub.simps) simp
    ultimately show ?thesis by simp
  next
    case False
    have "find_sub (drop (i + length sub) s) sub = None"
      unfolding find_sub_None_iff
    proof (intro allI impI notI)
      fix k
      assume k: "k \<le> length (drop (i + length sub) s)"
        and "startswith (drop k (drop (i + length sub) s)) sub"
      then have "startswith (drop (k + (i + length sub)) s) sub" by simp
      moreover from found have "i + length sub \<le> length s" by (rule find_sub_bound)
      with k have "k + (i + length sub) \<le> length s" by simp
      ultimately have "k + (i + length sub) = i" using only by blast
      with False show False by simp
    qed
    with False found show ?thesis
      by (simp add: count_sub.simps [of s] count_sub.simps [of "drop (i + length sub) s"])
  qed
qed

lemma count_sub_many:
  assumes "1 < count_sub s sub"
  shows "1 < length (occurrences s sub)"
proof -
  have "\<exists>i j. i \<noteq> j \<and> i \<in> set (occurrences s sub) \<and> j \<in> set (occurrences s sub)"
  proof (cases "sub = []")
    case True
    with assms have "0 < length s" by (simp add: count_sub.simps [of s])
    with True have "0 \<in> set (occurrences s sub)" "length s \<in> set (occurrences s sub)"
      by (simp_all add: set_occurrences startswith_def)
    with \<open>0 < length s\<close> show ?thesis by (metis less_numeral_extra(3))
  next
    case False
    with assms obtain i where found: "find_sub s sub = Some i"
      by (cases "find_sub s sub") (auto simp add: count_sub.simps [of s])
    with False assms have "0 < count_sub (drop (i + length sub) s) sub"
      by (simp add: count_sub.simps [of s])
    with False obtain k where more: "find_sub (drop (i + length sub) s) sub = Some k"
      by (cases "find_sub (drop (i + length sub) s) sub")
        (auto simp add: count_sub.simps [of "drop (i + length sub) s"])
    from found have i: "i \<in> set (occurrences s sub)"
      by (simp add: set_occurrences find_sub_Some_iff)
    from found have bound: "i + length sub \<le> length s" by (rule find_sub_bound)
    from more have "k \<le> length (drop (i + length sub) s)"
      and "startswith (drop k (drop (i + length sub) s)) sub"
      by (simp_all add: find_sub_Some_iff)
    with bound have "k + (i + length sub) \<le> length s"
      and "startswith (drop (k + (i + length sub)) s) sub"
      by simp_all
    then have "k + (i + length sub) \<in> set (occurrences s sub)"
      by (simp add: set_occurrences)
    moreover from False have "k + (i + length sub) \<noteq> i" by simp
    ultimately show ?thesis using i by blast
  qed
  then obtain i j where "i \<noteq> j" "i \<in> set (occurrences s sub)" "j \<in> set (occurrences s sub)"
    by blast
  then have "{i, j} \<subseteq> set (occurrences s sub)" "card {i, j} = 2" by auto
  then have "2 \<le> card (set (occurrences s sub))"
    by (metis List.finite_set card_mono)
  also have "\<dots> \<le> length (occurrences s sub)" by (rule card_length)
  finally show ?thesis by simp
qed

lemma mk_edit_keys [simp]:
  "mk_edit old new ''oldText'' = Some old" "mk_edit old new ''newText'' = Some new"
  by (simp_all add: mk_edit_def)

lemma apply_edits_absent:
  "occurrences content old = [] \<Longrightarrow>
     apply_edits content (mk_edit old new # edits) = Inl (TextNotFound (take 50 old))"
  by (simp add: contains_occurrences)

lemma apply_edits_once:
  "occurrences content old = [i] \<Longrightarrow>
     apply_edits content (mk_edit old new # edits)
       = apply_edits (take i content @ new @ drop (i + length old) content) edits"
proof -
  assume once: "occurrences content old = [i]"
  then have "contains content old" by (simp add: contains_occurrences)
  moreover from once have "find_sub content old = Some i" and "count_sub content old = 1"
    by (rule occurrences_single)+
  ultimately show ?thesis by (simp add: replace_first_def)
qed

lemma apply_edits_ambiguous:
  "apply_edits content [mk_edit old new] = Inl (AmbiguousMatch preview) \<Longrightarrow>
     1 < length (occurrences content old) \<and> preview = take 50 old"
proof -
  assume "apply_edits content [mk_edit old new] = Inl (AmbiguousMatch preview)"
  then have "1 < count_sub content old" and "preview = take 50 old"
    by (auto split: if_splits)
  then show ?thesis
    using count_sub_many [of content old] by simp
qed

lemma apply_edits_append:
  "apply_edits content (es1 @ es2) =
     (case apply_edits content es1 of Inl e \<Rightarrow> Inl e | Inr c \<Rightarrow> apply_edits c es2)"
  by (induction es1 arbitrary: content) (auto split: option.splits)

subsection \<open>Editing a file\<close>

lemma apply_file_edits_read:
  "read_file_content pf w path = Inr content \<Longrightarrow>
     apply_file_edits pf w path edits dry_run =
       (case apply_edits content edits of
          Inl e \<Rightarrow> (Inl e, w)
        | Inr new_content \<Rightarrow>
            (case (if \<not> dry_run then write_file_content pf w path new_content else (None, w)) of
               (Some e, w') \<Rightarrow> (Inl e, w')
             | (None, w') \<Rightarrow> (Inr (diff_text pf path content new_content), w')))"
  by (simp add: apply_file_edits_def)

text \<open>
  Claim C2.  An edit whose old text is absent raises the not-found error
  (\<open>apply_edits_absent\<close>), one whose old text occurs once replaces that occurrence by the new
  text (\<open>apply_edits_once\<close>), and the ambiguous-match error is raised only for an old text
  that occurs more than once (\<open>apply_edits_ambiguous\<close>).  But not every old text that
  occurs more than once raises it: \<open>count\<close> counts occurrences that do not overlap.  In
  \<open>aaa\<close> the text \<open>aa\<close> occurs at the positions 0 and 1; it is counted once, and the
  edit goes through at position 0.
\<close>

theorem apply_edits_overlapping:
  "occurrences ''aaa'' ''aa'' = [0, 1] \<and>
   apply_edits ''aaa'' [mk_edit ''aa'' ''b''] = Inr ''ba'' \<and>
   read_file_content example_pf example_fs ''/srv/d.txt'' = Inr ''aaa'' \<and>
   apply_file_edits example_pf example_fs ''/srv/d.txt'' [mk_edit ''aa'' ''b''] False =
     (Inr ''--- /srv/d.txt\<newline>+++ /srv/d.txt\<newline>--- \<newline>+++ \<newline>@@ -1 +1 @@\<newline>-aaa\<newline>+ba'',
      AList.update ''/srv/d.txt'' (File ''ba'') example_fs)"
  by code_simp

text \<open>The two examples of the claim.\<close>

lemma apply_edits_examples:
  "apply_edits ''ab ab'' [mk_edit ''ab'' ''x''] = Inl (AmbiguousMatch ''ab'')"
  "apply_edits ''ab'' [mk_edit ''ab'' ''x''] = Inr ''x''"
  by code_simp+

text \<open>
  Claim C3.  Without \<open>dry_run\<close>, when an edit of the list fails after the edits before it
  have succeeded on the working copy, \<open>apply_file_edits\<close> raises the error of that edit,
  and the world is the one before the call: the file is written only after the loop
  over the edits.
\<close>

theorem apply_file_edits_atomic:
  assumes "read_file_content pf w path = Inr content"
    and "apply_edits content earlier = Inr working"
    and "apply_edits working [edit] = Inl e"
  shows "apply_file_edits pf w path (earlier @ edit # later) False = (Inl e, w)"
proof -
  from assms(3) have "apply_edits working ([edit] @ later) = Inl e"
    by (simp only: apply_edits_append sum.case)
  with assms(2) have "apply_edits content (earlier @ [edit] @ later) = Inl e"
    by (simp only: apply_edits_append [of content earlier] sum.case)
  with assms(1) show ?thesis
    by (simp add: apply_file_edits_read)
qed

theorem apply_file_edits_atomic_witness:
  "apply_file_edits example_pf example_fs ''/srv/b.txt''
     ([mk_edit ''foo'' ''bar''] @ mk_edit ''foo'' ''baz'' # [mk_edit ''bar'' ''qux'']) False
     = (Inl (TextNotFound ''foo''), example_fs)"
proof -
  have 1: "read_file_content example_pf example_fs ''/srv/b.txt'' = Inr ''foo''"
    by code_simp
  have 2: "apply_edits ''foo'' [mk_edit ''foo'' ''bar''] = Inr ''bar''"
    by code_simp
  have 3: "apply_edits ''bar'' [mk_edit ''foo'' ''baz''] = Inl (TextNotFound ''foo'')"
    by code_simp
  show ?thesis
    by (rule apply_file_edits_atomic [OF 1 2 3])
qed

text \<open>
  Claim C6.  The edits are applied in the order of the list, each to the working copy
  the edits before it have left.  The content \<open>foo\<close> with the edits \<open>foo\<close> to \<open>bar\<close>,
  then \<open>bar\<close> to \<open>baz\<close>, becomes \<open>baz\<close>; with the two edits in the other order the first
  one raises the not-found error, and nothing is written.
\<close>

theorem edits_in_list_order:
  "apply_edits content (earlier @ later) =
     (case apply_edits content earlier of
        Inl e \<Rightarrow> Inl e
      | Inr working \<Rightarrow> apply_edits working later)
   \<and> apply_edits ''foo'' [mk_edit ''foo'' ''bar'', mk_edit ''bar'' ''baz''] = Inr ''baz''
   \<and> apply_edits ''foo'' [mk_edit ''bar'' ''baz'', mk_edit ''foo'' ''bar'']
       = Inl (TextNotFound ''bar'')
   \<and> (read_file_content pf w path = Inr ''foo'' \<longrightarrow>
        apply_file_edits pf w path [mk_edit ''foo'' ''bar'', mk_edit ''bar'' ''baz''] True
          = (Inr (diff_text pf path ''foo'' ''baz''), w)
        \<and> snd (apply_file_edits pf w path [mk_edit ''foo'' ''bar'', mk_edit ''bar'' ''baz''] False)
          = snd (write_file_content pf w path ''baz'')
        \<and> apply_file_edits pf w path [mk_edit ''bar'' ''baz'', mk_edit ''foo'' ''bar''] dry_run
          = (Inl (TextNotFound ''bar''), w))"
proof -
  have inorder: "apply_edits ''foo'' [mk_edit ''foo'' ''bar'', mk_edit ''bar'' ''baz''] = Inr ''baz''"
    by code_simp
  have reversed: "apply_edits ''foo'' [mk_edit ''bar'' ''baz'', mk_edit ''foo'' ''bar'']
       = Inl (TextNotFound ''bar'')"
    by code_simp
  have on_file: "apply_file_edits pf w path [mk_edit ''foo'' ''bar'', mk_edit ''bar'' ''baz''] True
          = (Inr (diff_text pf path ''foo'' ''baz''), w)
        \<and> snd (apply_file_edits pf w path [mk_edit ''foo'' ''bar'', mk_edit ''bar'' ''baz''] False)
          = snd (write_file_content pf w path ''baz'')
        \<and> apply_file_edits pf w path [mk_edit ''bar'' ''baz'', mk_edit ''foo'' ''bar''] dry_run
          = (Inl (TextNotFound ''bar''), w)"
    if r: "read_file_content pf w path = Inr ''foo''"
  proof (intro conjI)
    show "apply_file_edits pf w path [mk_edit ''foo'' ''bar'', mk_edit ''bar'' ''baz''] True
          = (Inr (diff_text pf path ''foo'' ''baz''), w)"
      unfolding apply_file_edits_read [OF r] inorder by simp
    show "snd (apply_file_edits pf w path [mk_edit ''foo'' ''bar'', mk_edit ''bar'' ''baz''] False)
          = snd (write_file_content pf w path ''baz'')"
      unfolding apply_file_edits_read [OF r] inorder
      by (simp split: prod.splits option.splits)
    show "apply_file_edits pf w path [mk_edit ''bar'' ''baz'', mk_edit ''foo'' ''bar''] dry_run
          = (Inl (TextNotFound ''bar''), w)"
      unfolding apply_file_edits_read [OF r] reversed by simp
  qed
  show ?thesis
    using apply_edits_append [of content earlier later] inorder reversed on_file
    by blast
qed

theorem edits_in_list_order_witness:
  "apply_file_edits example_pf example_fs ''/srv/b.txt''
      [mk_edit ''foo'' ''bar'', mk_edit ''bar'' ''baz''] True
     = (Inr (diff_text example_pf ''/srv/b.txt'' ''foo'' ''baz''), example_fs)
   \<and> snd (apply_file_edits example_pf example_fs ''/srv/b.txt''
      [mk_edit ''foo'' ''bar'', mk_edit ''bar'' ''baz''] False)
     = snd (write_file_content example_pf example_fs ''/srv/b.txt'' ''baz'')
   \<and> read_file_content example_pf
        (snd (write_file_content example_pf example_fs ''/srv/b.txt'' ''baz'')) ''/srv/b.txt''
     = Inr ''baz''
   \<and> apply_file_edits example_pf example_fs ''/srv/b.txt''
      [mk_edit ''bar'' ''baz'', mk_edit ''foo'' ''bar''] False
     = (Inl (TextNotFound ''bar''), example_fs)"
proof -
  have 1: "read_file_content example_pf example_fs ''/srv/b.txt'' = Inr ''foo''"
    by code_simp
  have 2: "read_file_content example_pf
        (snd (write_file_content example_pf example_fs ''/srv/b.txt'' ''baz'')) ''/srv/b.txt''
     = Inr ''baz''"
    by code_simp
  from edits_in_list_order [of "[]" "[]" "[]" example_pf example_fs "''/srv/b.txt''" False] 1 2
  show ?thesis by simp
qed

text \<open>
  Claim C7.  With \<open>dry_run\<close>, \<open>apply_file_edits\<close> leaves the world as it was, whatever the
  edits.  The text it returns is the text the call without \<open>dry_run\<close> returns: whenever
  that call returns a text the dry run returns the same, and whenever the dry run
  returns a text and the write of the final content succeeds, the call without
  \<open>dry_run\<close> returns the same.
\<close>

theorem dry_run_frame:
  "snd (apply_file_edits pf w path edits True) = w
   \<and> (\<forall>d. fst (apply_file_edits pf w path edits False) = Inr d \<longrightarrow>
        fst (apply_file_edits pf w path edits True) = Inr d)
   \<and> (\<forall>d content new_content.
        fst (apply_file_edits pf w path edits True) = Inr d
        \<and> read_file_content pf w path = Inr content
        \<and> apply_edits content edits = Inr new_content
        \<and> fst (write_file_content pf w path new_content) = None \<longrightarrow>
        fst (apply_file_edits pf w path edits False) = Inr d)"
  by (auto simp add: apply_file_edits_def split: sum.splits prod.splits option.splits)


theorem dry_run_frame_witness:
  "snd (apply_file_edits example_pf example_fs ''/srv/a.txt'' [mk_edit ''ab'' ''x''] True)
     = example_fs
   \<and> fst (apply_file_edits example_pf example_fs ''/srv/a.txt'' [mk_edit ''ab'' ''x''] True)
     = Inr (diff_text example_pf ''/srv/a.txt'' ''ab'' ''x'')
   \<and> fst (apply_file_edits example_pf example_fs ''/srv/a.txt'' [mk_edit ''ab'' ''x''] False)
     = Inr (diff_text example_pf ''/srv/a.txt'' ''ab'' ''x'')
   \<and> snd (apply_file_edits example_pf example_fs ''/srv/a.txt'' [mk_edit ''ab'' ''x''] False)
     \<noteq> example_fs"
proof -
  let ?dry = "apply_file_edits example_pf example_fs ''/srv/a.txt'' [mk_edit ''ab'' ''x''] True"
  let ?wet = "apply_file_edits example_pf example_fs ''/srv/a.txt'' [mk_edit ''ab'' ''x''] False"
  have r: "read_file_content example_pf example_fs ''/srv/a.txt'' = Inr ''ab''"
    by code_simp
  have e: "apply_edits ''ab'' [mk_edit ''ab'' ''x''] = Inr ''x''"
    by code_simp
  have wr: "fst (write_file_content example_pf example_fs ''/srv/a.txt'' ''x'') = None"
    by code_simp
  have d: "fst ?dry = Inr (diff_text example_pf ''/srv/a.txt'' ''ab'' ''x'')"
    unfolding apply_file_edits_read [OF r] e by simp
  have changed: "snd ?wet \<noteq> example_fs"
    by code_simp
  from dry_run_frame [of example_pf example_fs "''/srv/a.txt''" "[mk_edit ''ab'' ''x'']"]
  have "snd ?dry = example_fs" and "fst ?wet = Inr (diff_text example_pf ''/srv/a.txt'' ''ab'' ''x'')"
    using r e wr d by blast+
  with d changed show ?thesis by simp
qed

subsection \<open>The text returned\<close>

lemma hunk_not_empty: "hunk a b g \<noteq> []"
  by (cases g) (simp split: prod.splits)

lemma unified_diff_headers:
  "get_grouped_opcodes pf a b \<noteq> [] \<Longrightarrow>
     \<exists>hunks. hunks \<noteq> [] \<and> unified_diff pf a b = [''--- '', ''+++ ''] @ hunks"
proof -
  assume "get_grouped_opcodes pf a b \<noteq> []"
  then obtain g gs where g: "get_grouped_opcodes pf a b = g # gs"
    by (cases "get_grouped_opcodes pf a b") auto
  then have "unified_diff pf a b = [''--- '', ''+++ ''] @ concat (map (hunk a b) (g # gs))"
    by (simp add: unified_diff_def)
  moreover have "concat (map (hunk a b) (g # gs)) \<noteq> []"
    by (simp add: hunk_not_empty)
  ultimately show ?thesis by blast
qed

text \<open>
  Claim C5.  The text returned does not have the form of a unified diff with one pair
  of header lines.  \<open>apply_file_edits\<close> writes the lines \<open>--- path\<close> and \<open>+++ path\<close> itself,
  and \<open>unified_diff\<close>, called without file names, yields its own header lines \<open>---\<close> and
  \<open>+++\<close> before the first hunk.  Whenever the content has changed (the differ gives a
  group of opcodes), the text starts with four header lines.
\<close>

theorem diff_has_two_header_pairs:
  assumes "read_file_content pf w path = Inr content"
    and "apply_edits content edits = Inr new_content"
    and "fst (apply_file_edits pf w path edits dry_run) = Inr d"
    and "get_grouped_opcodes pf (splitlines content) (splitlines new_content) \<noteq> []"
  shows "\<exists>hunks. hunks \<noteq> [] \<and>
           d = str_join ''\<newline>''
                 ([''--- '' @ path, ''+++ '' @ path, ''--- '', ''+++ ''] @ hunks)"
proof -
  from assms(3) have d: "d = diff_text pf path content new_content"
    unfolding apply_file_edits_read [OF assms(1)] assms(2)
    by (auto split: if_splits prod.splits option.splits)
  from unified_diff_headers [OF assms(4)] obtain hunks where
    "hunks \<noteq> []" "unified_diff pf (splitlines content) (splitlines new_content)
        = [''--- '', ''+++ ''] @ hunks"
    by blast
  then show ?thesis
    unfolding d diff_text_def Let_def by (intro exI [of _ hunks]) simp
qed

theorem diff_has_two_header_pairs_witness:
  "fst (apply_file_edits example_pf example_fs ''/srv/a.txt'' [mk_edit ''ab'' ''x''] True)
     = Inr ''--- /srv/a.txt\<newline>+++ /srv/a.txt\<newline>--- \<newline>+++ \<newline>@@ -1 +1 @@\<newline>-ab\<newline>+x''
   \<and> (\<exists>hunks. hunks \<noteq> [] \<and>
         ''--- /srv/a.txt\<newline>+++ /srv/a.txt\<newline>--- \<newline>+++ \<newline>@@ -1 +1 @@\<newline>-ab\<newline>+x''
           = str_join ''\<newline>''
               ([''--- '' @ ''/srv/a.txt'', ''+++ '' @ ''/srv/a.txt'', ''--- '', ''+++ ''] @ hunks))"
proof -
  have r: "read_file_content example_pf example_fs ''/srv/a.txt'' = Inr ''ab''"
    by code_simp
  have e: "apply_edits ''ab'' [mk_edit ''ab'' ''x''] = Inr ''x''"
    by code_simp
  have d: "fst (apply_file_edits example_pf example_fs ''/srv/a.txt'' [mk_edit ''ab'' ''x''] True)
     = Inr ''--- /srv/a.txt\<newline>+++ /srv/a.txt\<newline>--- \<newline>+++ \<newline>@@ -1 +1 @@\<newline>-ab\<newline>+x''"
    by code_simp
  have g: "get_grouped_opcodes example_pf (splitlines ''ab'') (splitlines ''x'') \<noteq> []"
    by code_simp
  from diff_has_two_header_pairs [OF r e d g] d show ?thesis
    by blast
qed

section \<open>The allowed directories\<close>

lemma search_files_state: "snd (search_files depth pf s path pattern exclude_patterns) = s"
proof (induction depth arbitrary: path exclude_patterns)
  case 0
  show ?case by simp
next
  case (Suc depth)
  show ?case
  proof (cases "validate_path pf s path")
    case (Inl e)
    then show ?thesis by simp
  next
    case (Inr valid_path)
    let ?inner = "search_files depth pf s valid_path pattern
        (Some (case exclude_patterns of None \<Rightarrow> [] | Some pats \<Rightarrow> pats))"
    have "snd ?inner = s" by (rule Suc.IH)
    then obtain r where "?inner = (r, s)" by (cases ?inner) simp
    with Inr show ?thesis by (cases r) simp_all
  qed
qed

lemma call_tool_roots:
  "allowed_directories (snd (call_tool limit pf s r)) = allowed_directories s"
proof (cases r)
  case (SearchFiles path pattern exclude_patterns)
  then show ?thesis by (simp add: search_files_state)
qed (simp_all add: read_text_file_def read_media_file_def write_file_def edit_file_def
    create_directory_def list_directory_def list_directory_with_sizes_def directory_tree_def
    move_file_def get_file_info_def list_allowed_directories_def
    split: sum.splits prod.splits option.splits)

lemma serve_roots: "allowed_directories (serve limit pf s rs) = allowed_directories s"
  by (induction rs arbitrary: s) (simp_all add: call_tool_roots)

text \<open>
  Claim C9.  Once \<open>set_allowed_directories\<close> has stored the list at startup, no call of a
  tool changes it: after any single call, and after any sequence of calls, the list
  is the one that was stored, with the same elements in the same order.
  \<open>validate_path\<close> and \<open>apply_file_edits\<close> return no state of the server at all; every tool
  that calls them returns the list it was given.
\<close>

theorem allowed_directories_unchanged:
  "allowed_directories (snd (call_tool limit pf s r)) = allowed_directories s
   \<and> allowed_directories (serve limit pf s rs) = allowed_directories s
   \<and> allowed_directories (serve limit pf (set_allowed_directories s dirs) rs) = dirs"
  by (simp add: call_tool_roots serve_roots set_allowed_directories_def)

text \<open>
  A session on the example platform: a file is written, edited, moved and read, and a
  directory is made; the world has changed, the list has not.
\<close>

lemma example_session:
  "allowed_directories
     (serve 1000 example_pf example_server
        [WriteFile ''/srv/new.txt'' ''foo'',
         EditFile ''/srv/new.txt'' [mk_edit ''foo'' ''bar''] False,
         CreateDirectory ''/srv/docs'',
         MoveFile ''/srv/new.txt'' ''/srv/docs/new.txt'',
         ReadTextFile ''/etc/passwd'' None None])
     = [''/srv'']
   \<and> fst (call_tool 1000 example_pf
        (serve 1000 example_pf example_server
          [WriteFile ''/srv/new.txt'' ''foo'',
           EditFile ''/srv/new.txt'' [mk_edit ''foo'' ''bar''] False,
           CreateDirectory ''/srv/docs'',
           MoveFile ''/srv/new.txt'' ''/srv/docs/new.txt''])
        (ReadTextFile ''/srv/docs/new.txt'' None None))
     = Inr ''bar''"
  by code_simp

end
